theory Spec2Isabelle
  imports Main
begin

section \<open>Bitbucket manifest discovery: version store and reconciliation pass\<close>

text \<open>
  A shallow embedding of \<^verbatim>\<open>versionStore.ts\<close> (class \<^verbatim>\<open>VersionStore\<close>) and of
  \<^verbatim>\<open>provider.ts\<close> (class \<^verbatim>\<open>BitbucketManifestDiscoverEntityProvider\<close>) of the
  manifest-discover catalog module. Strings are \<open>string\<close>, timestamps are natural
  numbers, a nullable column is an \<open>option\<close>, and a value whose type the code does not
  check at run time is a \<open>js_value\<close>. Every \<^verbatim>\<open>throw\<close> and every rejected
  promise is a value \<open>Inl err\<close>; the database table and the catalog connection are
  threaded through the functions as explicit state. Calls of the logger write no state that
  the code reads back and are left out.
\<close>

subsection \<open>Errors\<close>

datatype error =
    NotConnected
  | NoIntegration
  | FetchRejected
  | FetchFailed nat string
  | YamlParseError
  | TypeError
  | InvalidManifest
  | StoreError
  | SinkError

subsection \<open>Values that are not checked\<close>

text \<open>
  A field of the parsed manifest is whatever the document holds: a string, something else
  that is there (a number, a boolean, a nested node), or nothing (\<^verbatim>\<open>null\<close>, or the key
  is missing). A value that is there but is not a string is kept as the text that the
  database driver sends for it (\<^verbatim>\<open>toString()\<close> of a number, so \<^verbatim>\<open>1.5\<close> is kept as
  \<open>JOther ''1.5''\<close>). Strict equality \<^verbatim>\<open>===\<close> with a string holds for the same string
  only, which is equality with \<open>JString\<close> of it.

  \<open>column_text\<close> is what a \<^verbatim>\<open>text\<close> column declared \<^verbatim>\<open>notNullable\<close> takes for a
  value: its text, and nothing for \<^verbatim>\<open>null\<close> or \<^verbatim>\<open>undefined\<close>, which the constraint
  refuses.
\<close>

datatype js_value = JString string | JOther string | JNullish

definition column_text :: "js_value \<Rightarrow> string option" where
  "column_text v = (case v of JString s \<Rightarrow> Some s | JOther s \<Rightarrow> Some s | JNullish \<Rightarrow> None)"

subsection \<open>The table \<^verbatim>\<open>bb_manifest_versions\<close>\<close>

text \<open>
  The migration creates one table with the columns below; \<^verbatim>\<open>repo_key\<close> is the primary
  key, \<^verbatim>\<open>last_registered_at\<close> is the only nullable column, and \<^verbatim>\<open>manifest_version\<close>
  is a \<^verbatim>\<open>text\<close> column that is not nullable. The table is a list of rows in insertion
  order.
\<close>

record row =
  repo_key :: string
  manifest_version :: string
  last_seen_at :: nat
  last_registered_at :: "nat option"

text \<open>The primary-key constraint: no two rows carry the same \<^verbatim>\<open>repo_key\<close>.\<close>

definition primary_key_ok :: "row list \<Rightarrow> bool" where
  "primary_key_ok rs = distinct (map repo_key rs)"

text \<open>
  The three query shapes that the store builds with the query builder:
  \<^verbatim>\<open>.where({repo_key}).first()\<close>, \<^verbatim>\<open>.insert(..).onConflict('repo_key').merge(..)\<close> and
  \<^verbatim>\<open>.where({repo_key}).update(..)\<close>. The last two return the table after the statement;
  \<^verbatim>\<open>update\<close> touches every row that matches, which may be none.
\<close>

definition where_first :: "string \<Rightarrow> row list \<Rightarrow> row option" where
  "where_first k rs = find (\<lambda>r. repo_key r = k) rs"

definition insert_on_conflict_merge :: "row \<Rightarrow> (row \<Rightarrow> row) \<Rightarrow> row list \<Rightarrow> row list" where
  "insert_on_conflict_merge new merge rs =
     (if repo_key new \<in> set (map repo_key rs)
      then map (\<lambda>r. if repo_key r = repo_key new then merge r else r) rs
      else rs @ [new])"

definition where_update :: "string \<Rightarrow> (row \<Rightarrow> row) \<Rightarrow> row list \<Rightarrow> row list" where
  "where_update k upd rs = map (\<lambda>r. if repo_key r = k then upd r else r) rs"

text \<open>
  The database connection. \<open>issued\<close> counts the statements sent so far. What the outside
  world decides is read from a \<open>db_env\<close>: the \<open>n\<close>-th statement runs at database time
  \<open>now_at n\<close> (the value of \<^verbatim>\<open>db.fn.now()\<close>) and is rejected with a storage error
  when \<open>fails_at n\<close> holds. A statement is also rejected when the table refuses it (the
  query yields \<open>None\<close>: a constraint is violated). A rejected statement leaves the table as
  it was.
\<close>

record database =
  rows :: "row list"
  issued :: nat

record db_env =
  now_at :: "nat \<Rightarrow> nat"
  fails_at :: "nat \<Rightarrow> bool"

definition run_statement ::
  "db_env \<Rightarrow> (nat \<Rightarrow> row list \<Rightarrow> ('a \<times> row list) option) \<Rightarrow> database \<Rightarrow>
   (error + 'a) \<times> database" where
  "run_statement e q d =
     (if fails_at e (issued d) then (Inl StoreError, d\<lparr>issued := Suc (issued d)\<rparr>)
      else (case q (now_at e (issued d)) (rows d) of
              None \<Rightarrow> (Inl StoreError, d\<lparr>issued := Suc (issued d)\<rparr>)
            | Some (a, rs) \<Rightarrow> (Inr a, \<lparr>rows = rs, issued = Suc (issued d)\<rparr>)))"

subsection \<open>\<^verbatim>\<open>VersionStore\<close>\<close>

record VersionRecord =
  repoKey :: string
  manifestVersion :: string
  lastSeenAt :: nat
  lastRegisteredAt :: "nat option"

definition get :: "db_env \<Rightarrow> string \<Rightarrow> database \<Rightarrow> (error + VersionRecord option) \<times> database" where
  "get e k d =
     (case run_statement e (\<lambda>now rs. Some (where_first k rs, rs)) d of
        (Inl err, d') \<Rightarrow> (Inl err, d')
      | (Inr None, d') \<Rightarrow> (Inr None, d')
      | (Inr (Some r), d') \<Rightarrow>
          (Inr (Some \<lparr>repoKey = repo_key r,
                      manifestVersion = manifest_version r,
                      lastSeenAt = last_seen_at r,
                      lastRegisteredAt = last_registered_at r\<rparr>), d'))"

text \<open>
  The tables that the statements of \<^verbatim>\<open>upsertSeen\<close> and \<^verbatim>\<open>markRegistered\<close> leave
  behind when they run at time \<open>now\<close>.
\<close>

definition upsert_rows :: "string \<Rightarrow> string \<Rightarrow> nat \<Rightarrow> row list \<Rightarrow> row list" where
  "upsert_rows k v now rs =
     insert_on_conflict_merge
       \<lparr>repo_key = k, manifest_version = v, last_seen_at = now, last_registered_at = None\<rparr>
       (\<lambda>r. r\<lparr>manifest_version := v, last_seen_at := now\<rparr>)
       rs"

definition register_rows :: "string \<Rightarrow> nat \<Rightarrow> row list \<Rightarrow> row list" where
  "register_rows k now rs = where_update k (\<lambda>r. r\<lparr>last_registered_at := Some now\<rparr>) rs"

text \<open>
  \<^verbatim>\<open>upsertSeen\<close> declares its version a string, but receives the manifest's value as it
  is; the statement stores the text of the value, and is refused when there is none.
\<close>

definition upsertSeen :: "db_env \<Rightarrow> string \<Rightarrow> js_value \<Rightarrow> database \<Rightarrow> (error + unit) \<times> database" where
  "upsertSeen e k v d =
     run_statement e
       (\<lambda>now rs. case column_text v of
                    None \<Rightarrow> None
                  | Some t \<Rightarrow> Some ((), upsert_rows k t now rs))
       d"

definition markRegistered :: "db_env \<Rightarrow> string \<Rightarrow> database \<Rightarrow> (error + unit) \<times> database" where
  "markRegistered e k d = run_statement e (\<lambda>now rs. Some ((), register_rows k now rs)) d"

subsection \<open>The manifest and its retrieval\<close>

text \<open>
  The parsed document is cast to \<^verbatim>\<open>BitbucketManifest\<close> without a check, so \<^verbatim>\<open>spec\<close>
  and \<^verbatim>\<open>spec.repositories\<close> may be missing; the parser may also return \<^verbatim>\<open>null\<close>
  (an empty document). Nor is an entry of \<^verbatim>\<open>spec.repositories\<close> checked. Its
  \<^verbatim>\<open>version\<close> is compared with \<^verbatim>\<open>===\<close>, handed to the store and copied into an
  annotation as it is, so it is a \<open>js_value\<close>: a manifest line \<^verbatim>\<open>version: 1.5\<close> gives a
  number, and the line may be missing. \<^verbatim>\<open>workspace\<close> and \<^verbatim>\<open>repoSlug\<close> are read
  inside template literals only, which turn any value into a string; the record holds those
  strings. \<^verbatim>\<open>id\<close> is never read.
\<close>

record BitbucketManifestRepo =
  repo_id :: string
  workspace :: string
  repoSlug :: string
  version :: js_value

record manifest_spec =
  repositories :: "BitbucketManifestRepo list option"

record BitbucketManifest =
  manifest_apiVersion :: string
  manifest_kind :: string
  manifest_name :: string
  spec :: "manifest_spec option"

datatype yaml_value = YamlNull | YamlDoc BitbucketManifest

record ProviderConfig =
  manifestUrl :: string
  defaultBranch :: string
  defaultCatalogInfoPath :: string

record credentials =
  username :: "string option"
  appPassword :: "string option"

datatype http_result = Rejected | Response bool nat string string

text \<open>
  What \<^verbatim>\<open>fetchManifest\<close> asks of the outside: the integration registered for a URL, the
  Base64 encoding, the HTTP request (rejected, or a response with its \<^verbatim>\<open>ok\<close> flag,
  status, status text and body) and the YAML parser.
\<close>

record fetch_env =
  byUrl :: "string \<Rightarrow> credentials option"
  base64 :: "string \<Rightarrow> string"
  fetch :: "string \<Rightarrow> (string \<times> string) list \<Rightarrow> http_result"
  yaml_parse :: "string \<Rightarrow> yaml_value option"

definition truthy :: "string option \<Rightarrow> bool" where
  "truthy s = (case s of None \<Rightarrow> False | Some x \<Rightarrow> x \<noteq> [])"

definition request_headers :: "fetch_env \<Rightarrow> credentials \<Rightarrow> (string \<times> string) list" where
  "request_headers f cr =
     (case (username cr, appPassword cr) of
        (Some u, Some p) \<Rightarrow>
          (if truthy (Some u) \<and> truthy (Some p)
           then [(''Accept'', ''application/yaml''),
                 (''Authorization'', ''Basic '' @ base64 f (u @ '':'' @ p))]
           else [(''Accept'', ''application/yaml'')])
      | _ \<Rightarrow> [(''Accept'', ''application/yaml'')])"

definition fetchManifest :: "ProviderConfig \<Rightarrow> fetch_env \<Rightarrow> error + BitbucketManifest" where
  "fetchManifest c f =
     (case byUrl f (manifestUrl c) of
        None \<Rightarrow> Inl NoIntegration
      | Some cr \<Rightarrow>
          (case fetch f (manifestUrl c) (request_headers f cr) of
             Rejected \<Rightarrow> Inl FetchRejected
           | Response ok status statusText content \<Rightarrow>
               (if \<not> ok then Inl (FetchFailed status statusText)
                else (case yaml_parse f content of
                        None \<Rightarrow> Inl YamlParseError
                      | Some YamlNull \<Rightarrow> Inl TypeError
                      | Some (YamlDoc manifest) \<Rightarrow>
                          (case spec manifest of
                             None \<Rightarrow> Inl InvalidManifest
                           | Some sp \<Rightarrow>
                               (case repositories sp of
                                  None \<Rightarrow> Inl InvalidManifest
                                | Some _ \<Rightarrow> Inr manifest))))))"

subsection \<open>Location entities\<close>

record LocationEntity =
  apiVersion :: string
  kind :: string
  metadata_name :: string
  metadata_annotations :: "(string \<times> js_value) list"
  spec_type :: string
  spec_target :: string

definition createLocationEntity :: "ProviderConfig \<Rightarrow> BitbucketManifestRepo \<Rightarrow> LocationEntity" where
  "createLocationEntity c repo =
     (let catalogUrl = ''https://bitbucket.org/'' @ workspace repo @ ''/'' @ repoSlug repo
                       @ ''/raw/'' @ defaultBranch c @ ''/'' @ defaultCatalogInfoPath c
      in \<lparr>apiVersion = ''backstage.io/v1alpha1'',
          kind = ''Location'',
          metadata_name = ''bitbucket-manifest-'' @ workspace repo @ ''-'' @ repoSlug repo,
          metadata_annotations =
            [(''backstage.io/managed-by-location'', JString (''url:'' @ manifestUrl c)),
             (''bitbucket.org/repo-key'', JString (workspace repo @ ''/'' @ repoSlug repo)),
             (''bitbucket.org/manifest-version'', version repo)],
          spec_type = ''url'',
          spec_target = catalogUrl\<rparr>)"

subsection \<open>Processing one repository\<close>

record process_result =
  location :: LocationEntity
  shouldRegister :: bool

definition repoKeyOf :: "BitbucketManifestRepo \<Rightarrow> string" where
  "repoKeyOf repo = workspace repo @ ''/'' @ repoSlug repo"

definition processRepository ::
  "db_env \<Rightarrow> ProviderConfig \<Rightarrow> BitbucketManifestRepo \<Rightarrow> database \<Rightarrow>
   (error + process_result) \<times> database" where
  "processRepository e c repo d =
     (case get e (repoKeyOf repo) d of
        (Inl err, d1) \<Rightarrow> (Inl err, d1)
      | (Inr stored, d1) \<Rightarrow>
          (if (case stored of None \<Rightarrow> False
                            | Some s \<Rightarrow> JString (manifestVersion s) = version repo)
           then (Inr \<lparr>location = createLocationEntity c repo, shouldRegister = False\<rparr>, d1)
           else (case upsertSeen e (repoKeyOf repo) (version repo) d1 of
                   (Inl err, d2) \<Rightarrow> (Inl err, d2)
                 | (Inr _, d2) \<Rightarrow>
                     (case markRegistered e (repoKeyOf repo) d2 of
                        (Inl err, d3) \<Rightarrow> (Inl err, d3)
                      | (Inr _, d3) \<Rightarrow>
                          (Inr \<lparr>location = createLocationEntity c repo,
                                shouldRegister = True\<rparr>, d3)))))"

subsection \<open>The discovery pass\<close>

text \<open>
  The \<^verbatim>\<open>for\<close> loop of \<^verbatim>\<open>discover\<close> over \<^verbatim>\<open>manifest.spec.repositories\<close>, with
  \<^verbatim>\<open>locationsToRegister\<close> as accumulator. An error thrown by \<^verbatim>\<open>processRepository\<close>
  leaves the loop at once: nothing inside the loop catches it.
\<close>

fun discover_loop ::
  "db_env \<Rightarrow> ProviderConfig \<Rightarrow> BitbucketManifestRepo list \<Rightarrow> LocationEntity list \<Rightarrow>
   database \<Rightarrow> (error + LocationEntity list) \<times> database" where
  "discover_loop e c [] locationsToRegister d = (Inr locationsToRegister, d)"
| "discover_loop e c (repo # rest) locationsToRegister d =
     (case processRepository e c repo d of
        (Inl err, d') \<Rightarrow> (Inl err, d')
      | (Inr result, d') \<Rightarrow>
          discover_loop e c rest
            (if shouldRegister result then locationsToRegister @ [location result]
             else locationsToRegister) d')"

text \<open>
  The catalog connection is the sink of the pass: it is absent until \<^verbatim>\<open>connect\<close> has
  run, and afterwards holds the mutations it has accepted, oldest first. Whether it rejects
  a mutation is decided outside.
\<close>

record DeferredEntity =
  entity :: LocationEntity
  locationKey :: string

record mutation =
  mutation_type :: string
  added :: "DeferredEntity list"
  removed :: "DeferredEntity list"

record world =
  db :: database
  connection :: "mutation list option"

definition getProviderName :: string where
  "getProviderName = ''bitbucket-manifest-discover''"

definition discover ::
  "ProviderConfig \<Rightarrow> fetch_env \<Rightarrow> db_env \<Rightarrow> (mutation \<Rightarrow> bool) \<Rightarrow> world \<Rightarrow>
   (error + unit) \<times> world" where
  "discover c f e sink_rejects w =
     (case connection w of
        None \<Rightarrow> (Inl NotConnected, w)
      | Some accepted \<Rightarrow>
          (case fetchManifest c f of
             Inl err \<Rightarrow> (Inl err, w)
           | Inr manifest \<Rightarrow>
               (case spec manifest of
                  None \<Rightarrow> (Inl TypeError, w)
                | Some sp \<Rightarrow>
                    (case repositories sp of
                       None \<Rightarrow> (Inl TypeError, w)
                     | Some repos \<Rightarrow>
                         (case discover_loop e c repos [] (db w) of
                            (Inl err, d') \<Rightarrow> (Inl err, w\<lparr>db := d'\<rparr>)
                          | (Inr locationsToRegister, d') \<Rightarrow>
                              (if length locationsToRegister > 0
                               then (let m = \<lparr>mutation_type = ''delta'',
                                               added = map (\<lambda>l. \<lparr>entity = l,
                                                                  locationKey = getProviderName\<rparr>)
                                                           locationsToRegister,
                                               removed = []\<rparr>
                                     in if sink_rejects m
                                        then (Inl SinkError, w\<lparr>db := d'\<rparr>)
                                        else (Inr (), \<lparr>db = d',
                                                       connection = Some (accepted @ [m])\<rparr>))
                               else (Inr (), w\<lparr>db := d'\<rparr>)))))))"

text \<open>
  The descriptors that a pass gets to see: \<^verbatim>\<open>spec.repositories\<close> of the fetched manifest,
  and none when the fetch fails.
\<close>

definition fetched_repositories :: "ProviderConfig \<Rightarrow> fetch_env \<Rightarrow> BitbucketManifestRepo list" where
  "fetched_repositories c f =
     (case fetchManifest c f of
        Inl err \<Rightarrow> []
      | Inr manifest \<Rightarrow>
          (case spec manifest of
             None \<Rightarrow> []
           | Some sp \<Rightarrow> (case repositories sp of None \<Rightarrow> [] | Some repos \<Rightarrow> repos)))"

section \<open>The specification's reconciliation, for comparison\<close>

text \<open>
  The specification classifies a descriptor against the prior record of its key:
  Unchanged when a prior record exists and its version equals the descriptor's, New when no
  prior record exists, Changed when one exists with a different version. The specification
  has string versions only; a recorded version, a string, equals a descriptor's version when
  that is the same string.
\<close>

datatype classification = Unchanged | New | Changed

definition spec_classify :: "row option \<Rightarrow> BitbucketManifestRepo \<Rightarrow> classification" where
  "spec_classify prior repo =
     (case prior of
        None \<Rightarrow> New
      | Some r \<Rightarrow> if JString (manifest_version r) = version repo then Unchanged else Changed)"

text \<open>
  The version that the table holds for a key, if any, as a value, and the value that is
  held once a descriptor's version has been recorded: a string is held as it is.
\<close>

definition stored_version :: "row list \<Rightarrow> string \<Rightarrow> js_value option" where
  "stored_version rs k = map_option (\<lambda>r. JString (manifest_version r)) (where_first k rs)"

definition recorded :: "js_value \<Rightarrow> js_value option" where
  "recorded v = map_option JString (column_text v)"

text \<open>
  The specification's \<^verbatim>\<open>reconcile\<close> over the versions known per key: \<open>spec_delta\<close> is
  the list of descriptors classified New or Changed, in manifest order, and
  \<open>spec_store\<close> the versions known after the pass. For a string version
  \<open>recorded v = Some v\<close>, and the update below records the descriptor's version, as the
  specification says.
\<close>

fun spec_delta ::
  "(string \<Rightarrow> js_value option) \<Rightarrow> BitbucketManifestRepo list \<Rightarrow> BitbucketManifestRepo list" where
  "spec_delta m [] = []"
| "spec_delta m (repo # rest) =
     (if m (repoKeyOf repo) = Some (version repo) then spec_delta m rest
      else repo # spec_delta (m(repoKeyOf repo := recorded (version repo))) rest)"

fun spec_store ::
  "(string \<Rightarrow> js_value option) \<Rightarrow> BitbucketManifestRepo list \<Rightarrow> string \<Rightarrow> js_value option" where
  "spec_store m [] = m"
| "spec_store m (repo # rest) =
     (if m (repoKeyOf repo) = Some (version repo) then spec_store m rest
      else spec_store (m(repoKeyOf repo := recorded (version repo))) rest)"

section \<open>Sample data\<close>

text \<open>
  An outside that rejects no statement and whose clock shows \<open>100 + n\<close> at the \<open>n\<close>-th
  statement, a configuration, two repositories of workspace \<^verbatim>\<open>w\<close> at a given string
  version, and the first of them at a version that the manifest gives as the number 1.5 and
  at no version.
\<close>

definition quiet :: db_env where
  "quiet = \<lparr>now_at = (\<lambda>n. 100 + n), fails_at = (\<lambda>n. False)\<rparr>"

definition cfg :: ProviderConfig where
  "cfg = \<lparr>manifestUrl = ''https://bitbucket.org/w/m/raw/main/m.yaml'', defaultBranch = ''main'',
          defaultCatalogInfoPath = ''catalog-info.yaml''\<rparr>"

definition repoA :: "string \<Rightarrow> BitbucketManifestRepo" where
  "repoA v = \<lparr>repo_id = ''a'', workspace = ''w'', repoSlug = ''a'', version = JString v\<rparr>"

definition repoB :: "string \<Rightarrow> BitbucketManifestRepo" where
  "repoB v = \<lparr>repo_id = ''b'', workspace = ''w'', repoSlug = ''b'', version = JString v\<rparr>"

definition repoA_number :: BitbucketManifestRepo where
  "repoA_number = \<lparr>repo_id = ''a'', workspace = ''w'', repoSlug = ''a'', version = JOther ''1.5''\<rparr>"

definition repoA_unversioned :: BitbucketManifestRepo where
  "repoA_unversioned = \<lparr>repo_id = ''a'', workspace = ''w'', repoSlug = ''a'', version = JNullish\<rparr>"

text \<open>
  An outside that rejects exactly the \<open>k\<close>-th statement; a network that serves a manifest
  with the given repositories, and one that answers 404; a sink that accepts every mutation,
  and one that rejects every mutation.
\<close>

definition flaky :: "nat \<Rightarrow> db_env" where
  "flaky k = \<lparr>now_at = (\<lambda>n. 100 + n), fails_at = (\<lambda>n. n = k)\<rparr>"

definition net :: "BitbucketManifestRepo list \<Rightarrow> fetch_env" where
  "net repos =
     \<lparr>byUrl = (\<lambda>url. Some \<lparr>username = None, appPassword = None\<rparr>),
      base64 = (\<lambda>s. s),
      fetch = (\<lambda>url headers. Response True 200 ''OK'' ''spec: ...''),
      yaml_parse = (\<lambda>content. Some (YamlDoc
         \<lparr>manifest_apiVersion = ''backstage.io/v1alpha1'',
          manifest_kind = ''BitbucketRepoManifest'',
          manifest_name = ''org-repos'',
          spec = Some \<lparr>repositories = Some repos\<rparr>\<rparr>))\<rparr>"

definition not_found :: fetch_env where
  "not_found =
     \<lparr>byUrl = (\<lambda>url. Some \<lparr>username = None, appPassword = None\<rparr>),
      base64 = (\<lambda>s. s),
      fetch = (\<lambda>url headers. Response False 404 ''Not Found'' []),
      yaml_parse = (\<lambda>content. None)\<rparr>"

definition accepting :: "mutation \<Rightarrow> bool" where
  "accepting m = False"

definition rejecting :: "mutation \<Rightarrow> bool" where
  "rejecting m = True"

section \<open>Facts about the table\<close>

lemma where_first_append:
  "where_first k (rs @ [n]) =
     (case where_first k rs of Some r \<Rightarrow> Some r
      | None \<Rightarrow> if repo_key n = k then Some n else None)"
  by (induction rs) (auto simp: where_first_def)

lemma where_first_None_iff: "where_first k rs = None \<longleftrightarrow> k \<notin> set (map repo_key rs)"
  by (induction rs) (auto simp: where_first_def)

lemma where_first_map_same:
  "(\<And>r. repo_key (f r) = repo_key r) \<Longrightarrow>
   where_first k (map (\<lambda>r. if repo_key r = k then f r else r) rs) = map_option f (where_first k rs)"
  by (induction rs) (auto simp: where_first_def)

lemma where_first_map_other:
  "k' \<noteq> k \<Longrightarrow> (\<And>r. repo_key (f r) = repo_key r) \<Longrightarrow>
   where_first k' (map (\<lambda>r. if repo_key r = k then f r else r) rs) = where_first k' rs"
  by (induction rs) (auto simp: where_first_def)

lemma where_first_key: "where_first k rs = Some r \<Longrightarrow> repo_key r = k"
  by (induction rs) (auto simp: where_first_def split: if_splits)

lemma keys_map_same:
  "(\<And>r. repo_key (f r) = repo_key r) \<Longrightarrow>
   map repo_key (map (\<lambda>r. if repo_key r = k then f r else r) rs) = map repo_key rs"
  by (induction rs) auto

lemma keys_upsert:
  "map repo_key
     (upsert_rows k v t rs) =
   (if k \<in> set (map repo_key rs) then map repo_key rs else map repo_key rs @ [k])"
proof -
  have "map repo_key (map (\<lambda>r. if repo_key r = k
          then r\<lparr>manifest_version := v, last_seen_at := t\<rparr> else r) rs) = map repo_key rs"
    by (rule keys_map_same) simp
  then show ?thesis
    unfolding upsert_rows_def insert_on_conflict_merge_def by (simp del: map_map set_map)
qed

lemma where_first_upsert_same:
  "where_first k
     (upsert_rows k v t rs) =
   (case where_first k rs of
      None \<Rightarrow> Some \<lparr>repo_key = k, manifest_version = v, last_seen_at = t, last_registered_at = None\<rparr>
    | Some r \<Rightarrow> Some (r\<lparr>manifest_version := v, last_seen_at := t\<rparr>))"
proof (cases "k \<in> set (map repo_key rs)")
  case True
  then obtain r where "where_first k rs = Some r"
    using where_first_None_iff [of k rs] by (cases "where_first k rs") auto
  with True show ?thesis
    by (simp add: upsert_rows_def insert_on_conflict_merge_def where_first_map_same)
next
  case False
  then have "where_first k rs = None" by (simp add: where_first_None_iff)
  with False show ?thesis
    by (simp add: upsert_rows_def insert_on_conflict_merge_def where_first_append)
qed

lemma where_first_upsert_other:
  assumes "k' \<noteq> k"
  shows "where_first k'
     (upsert_rows k v t rs) = where_first k' rs"
  using assms
  by (auto simp: upsert_rows_def insert_on_conflict_merge_def where_first_map_other where_first_append
           split: option.splits)

lemma primary_key_upsert:
  assumes "primary_key_ok rs"
  shows "primary_key_ok
     (upsert_rows k v t rs)"
  using assms unfolding primary_key_ok_def keys_upsert by simp

lemma key_in_upsert:
  "k \<in> set (map repo_key
     (upsert_rows k v t rs))"
  unfolding keys_upsert by simp

lemma count_key_distinct:
  "distinct (map repo_key rs) \<Longrightarrow> k \<in> set (map repo_key rs) \<Longrightarrow>
   length (filter (\<lambda>r. repo_key r = k) rs) = 1"
proof (induction rs)
  case Nil
  then show ?case by simp
next
  case (Cons a rs)
  show ?case
  proof (cases "repo_key a = k")
    case True
    with Cons.prems(1) have "k \<notin> set (map repo_key rs)" by simp
    then have "filter (\<lambda>r. repo_key r = k) rs = []"
      unfolding filter_empty_conv by (metis image_eqI set_map)
    with True show ?thesis by simp
  next
    case False
    with Cons show ?thesis by auto
  qed
qed

lemma where_first_register:
  "where_first k' (register_rows k t rs) =
     (if k' = k then map_option (\<lambda>r. r\<lparr>last_registered_at := Some t\<rparr>) (where_first k rs)
      else where_first k' rs)"
  by (simp add: register_rows_def where_update_def where_first_map_same where_first_map_other)

lemma where_first_upsert:
  "where_first k' (upsert_rows k v t rs) =
     (if k' = k
      then (case where_first k rs of
              None \<Rightarrow> Some \<lparr>repo_key = k, manifest_version = v, last_seen_at = t,
                             last_registered_at = None\<rparr>
            | Some r \<Rightarrow> Some (r\<lparr>manifest_version := v, last_seen_at := t\<rparr>))
      else where_first k' rs)"
  by (simp add: where_first_upsert_same where_first_upsert_other)

lemma register_rows_missing: "where_first k rs = None \<Longrightarrow> register_rows k t rs = rs"
  unfolding register_rows_def where_update_def where_first_None_iff
  by (induction rs) auto

lemma where_first_processed:
  "where_first k' (register_rows k t2 (upsert_rows k v t1 rs)) =
     (if k' = k
      then Some \<lparr>repo_key = k, manifest_version = v, last_seen_at = t1,
                 last_registered_at = Some t2\<rparr>
      else where_first k' rs)"
proof (cases "where_first k rs")
  case None
  then show ?thesis by (simp add: where_first_register where_first_upsert)
next
  case (Some r)
  then have "repo_key r = k" by (rule where_first_key)
  with Some show ?thesis
    by (cases r) (simp add: where_first_register where_first_upsert)
qed

lemma stored_version_processed:
  "stored_version (register_rows k t2 (upsert_rows k v t1 rs)) =
     (stored_version rs)(k \<mapsto> JString v)"
  by (rule ext) (simp add: stored_version_def where_first_processed)

section \<open>Facts about one repository and about the loop\<close>

lemma processRepository_eq:
  "processRepository e c repo d =
     (if fails_at e (issued d) then (Inl StoreError, \<lparr>rows = rows d, issued = Suc (issued d)\<rparr>)
      else if stored_version (rows d) (repoKeyOf repo) = Some (version repo)
      then (Inr \<lparr>location = createLocationEntity c repo, shouldRegister = False\<rparr>,
            \<lparr>rows = rows d, issued = Suc (issued d)\<rparr>)
      else (case column_text (version repo) of
              None \<Rightarrow> (Inl StoreError, \<lparr>rows = rows d, issued = Suc (Suc (issued d))\<rparr>)
            | Some t \<Rightarrow>
                if fails_at e (Suc (issued d))
                then (Inl StoreError, \<lparr>rows = rows d, issued = Suc (Suc (issued d))\<rparr>)
                else if fails_at e (Suc (Suc (issued d)))
                then (Inl StoreError,
                      \<lparr>rows = upsert_rows (repoKeyOf repo) t (now_at e (Suc (issued d))) (rows d),
                       issued = Suc (Suc (Suc (issued d)))\<rparr>)
                else (Inr \<lparr>location = createLocationEntity c repo, shouldRegister = True\<rparr>,
                      \<lparr>rows = register_rows (repoKeyOf repo) (now_at e (Suc (Suc (issued d))))
                               (upsert_rows (repoKeyOf repo) t (now_at e (Suc (issued d))) (rows d)),
                       issued = Suc (Suc (Suc (issued d)))\<rparr>)))"
  by (cases d; cases "where_first (repoKeyOf repo) (rows d)"; cases "column_text (version repo)")
     (auto simp: processRepository_def get_def upsertSeen_def markRegistered_def
                 run_statement_def stored_version_def)

lemma process_ok:
  assumes "processRepository e c repo d = (Inr res, d1)"
  shows "location res = createLocationEntity c repo \<and>
         (if stored_version (rows d) (repoKeyOf repo) = Some (version repo)
          then \<not> shouldRegister res \<and> rows d1 = rows d \<and> issued d1 = Suc (issued d)
          else shouldRegister res \<and>
               (\<exists>t. column_text (version repo) = Some t \<and>
                    rows d1 = register_rows (repoKeyOf repo) (now_at e (Suc (Suc (issued d))))
                                (upsert_rows (repoKeyOf repo) t
                                   (now_at e (Suc (issued d))) (rows d))) \<and>
               issued d1 = Suc (Suc (Suc (issued d))))"
  using assms unfolding processRepository_eq by (auto split: if_splits option.splits)

lemma process_frame:
  assumes "processRepository e c repo d = (res, d1)" and "k \<noteq> repoKeyOf repo"
  shows "where_first k (rows d1) = where_first k (rows d)"
  using assms unfolding processRepository_eq
  by (auto split: if_splits option.splits simp: where_first_upsert where_first_register)

lemma process_issued:
  assumes "processRepository e c repo d = (res, d1)"
  shows "issued d < issued d1 \<and> issued d1 \<le> issued d + 3"
  using assms unfolding processRepository_eq by (auto split: if_splits option.splits)

lemma loop_issued:
  "discover_loop e c repos acc d = (res, d') \<Longrightarrow> issued d \<le> issued d'"
proof (induction repos arbitrary: acc d)
  case Nil
  then show ?case by simp
next
  case (Cons repo rest)
  obtain r d1 where p: "processRepository e c repo d = (r, d1)" by force
  then have lt: "issued d < issued d1" using process_issued by blast
  show ?case
  proof (cases r)
    case (Inl err)
    with p Cons.prems lt show ?thesis by simp
  next
    case (Inr result)
    with p Cons.prems have "discover_loop e c rest
        (if shouldRegister result then acc @ [location result] else acc) d1 = (res, d')"
      by simp
    then have "issued d1 \<le> issued d'" by (rule Cons.IH)
    with lt show ?thesis by simp
  qed
qed

lemma loop_frame:
  "discover_loop e c repos acc d = (res, d') \<Longrightarrow> k \<notin> repoKeyOf ` set repos \<Longrightarrow>
   where_first k (rows d') = where_first k (rows d)"
proof (induction repos arbitrary: acc d)
  case Nil
  then show ?case by simp
next
  case (Cons repo rest)
  obtain r d1 where p: "processRepository e c repo d = (r, d1)" by force
  from Cons.prems(2) have ne: "k \<noteq> repoKeyOf repo" and rest: "k \<notin> repoKeyOf ` set rest"
    by auto
  have step: "where_first k (rows d1) = where_first k (rows d)"
    using p ne by (rule process_frame)
  show ?case
  proof (cases r)
    case (Inl err)
    with p Cons.prems(1) step show ?thesis by simp
  next
    case (Inr result)
    with p Cons.prems(1) have "discover_loop e c rest
        (if shouldRegister result then acc @ [location result] else acc) d1 = (res, d')"
      by simp
    then have "where_first k (rows d') = where_first k (rows d1)"
      using rest by (rule Cons.IH)
    with step show ?thesis by simp
  qed
qed

lemma loop_refines_spec:
  "discover_loop e c repos acc d = (Inr out, d') \<Longrightarrow>
   out = acc @ map (createLocationEntity c) (spec_delta (stored_version (rows d)) repos) \<and>
   stored_version (rows d') = spec_store (stored_version (rows d)) repos"
proof (induction repos arbitrary: acc d)
  case Nil
  then show ?case by simp
next
  case (Cons repo rest)
  obtain r d1 where p: "processRepository e c repo d = (r, d1)" by force
  with Cons.prems obtain result where r: "r = Inr result"
    by (cases r) auto
  from p r Cons.prems have run: "discover_loop e c rest
      (if shouldRegister result then acc @ [location result] else acc) d1 = (Inr out, d')"
    by simp
  note ih = Cons.IH [OF run]
  note ok = process_ok [OF p [unfolded r]]
  show ?case
  proof (cases "stored_version (rows d) (repoKeyOf repo) = Some (version repo)")
    case True
    with ok ih show ?thesis by simp
  next
    case False
    with ok have sv: "stored_version (rows d1) =
        (stored_version (rows d))(repoKeyOf repo := recorded (version repo))"
      by (auto simp: stored_version_processed recorded_def)
    from False ok have "shouldRegister result" "location result = createLocationEntity c repo"
      by simp_all
    with False ih show ?thesis by (simp add: sv fun_upd_def)
  qed
qed

lemma loop_frame_delta:
  "discover_loop e c repos acc d = (Inr out, d') \<Longrightarrow>
   k \<notin> repoKeyOf ` set (spec_delta (stored_version (rows d)) repos) \<Longrightarrow>
   where_first k (rows d') = where_first k (rows d)"
proof (induction repos arbitrary: acc d)
  case Nil
  then show ?case by simp
next
  case (Cons repo rest)
  obtain r d1 where p: "processRepository e c repo d = (r, d1)" by force
  with Cons.prems obtain result where r: "r = Inr result"
    by (cases r) auto
  from p r Cons.prems have run: "discover_loop e c rest
      (if shouldRegister result then acc @ [location result] else acc) d1 = (Inr out, d')"
    by simp
  note ok = process_ok [OF p [unfolded r]]
  show ?case
  proof (cases "stored_version (rows d) (repoKeyOf repo) = Some (version repo)")
    case True
    with ok have same: "rows d1 = rows d" by simp
    from True Cons.prems(2)
    have "k \<notin> repoKeyOf ` set (spec_delta (stored_version (rows d1)) rest)"
      by (simp add: same)
    with run have "where_first k (rows d') = where_first k (rows d1)" by (rule Cons.IH)
    with same show ?thesis by simp
  next
    case False
    with ok have sv: "stored_version (rows d1) =
        (stored_version (rows d))(repoKeyOf repo := recorded (version repo))"
      by (auto simp: stored_version_processed recorded_def)
    from False Cons.prems(2) have ne: "k \<noteq> repoKeyOf repo"
      and "k \<notin> repoKeyOf ` set (spec_delta (stored_version (rows d1)) rest)"
      by (auto simp: sv)
    with run have "where_first k (rows d') = where_first k (rows d1)" by (metis Cons.IH)
    moreover have "where_first k (rows d1) = where_first k (rows d)"
      using p ne by (rule process_frame)
    ultimately show ?thesis by simp
  qed
qed

lemma loop_total:
  "\<forall>n\<ge>issued d. \<not> fails_at e n \<Longrightarrow> \<forall>r\<in>set repos. version r \<noteq> JNullish \<Longrightarrow>
   \<exists>out d'. discover_loop e c repos acc d = (Inr out, d')"
proof (induction repos arbitrary: acc d)
  case Nil
  then show ?case by simp
next
  case (Cons repo rest)
  from Cons.prems(1) have f: "\<not> fails_at e (issued d)" "\<not> fails_at e (Suc (issued d))"
    "\<not> fails_at e (Suc (Suc (issued d)))" by simp_all
  from Cons.prems(2) have "version repo \<noteq> JNullish" by simp
  then obtain t where "column_text (version repo) = Some t"
    by (cases "version repo") (simp_all add: column_text_def)
  with f have "\<exists>result d1. processRepository e c repo d = (Inr result, d1)"
    unfolding processRepository_eq by simp
  then obtain result d1 where p: "processRepository e c repo d = (Inr result, d1)"
    by blast
  then have "issued d < issued d1" using process_issued by blast
  with Cons.prems(1) have quiet: "\<forall>n\<ge>issued d1. \<not> fails_at e n" by simp
  from Cons.prems(2) have rest: "\<forall>r\<in>set rest. version r \<noteq> JNullish" by simp
  from Cons.IH [OF quiet rest] p show ?case by simp
qed

lemma loop_stamps:
  "discover_loop e c repos acc d = (Inr out, d') \<Longrightarrow>
   k \<in> repoKeyOf ` set (spec_delta (stored_version (rows d)) repos) \<Longrightarrow>
   \<exists>r n. where_first k (rows d') = Some r \<and> issued d < n \<and> Suc n < issued d' \<and>
         last_seen_at r = now_at e n \<and> last_registered_at r = Some (now_at e (Suc n))"
proof (induction repos arbitrary: acc d)
  case Nil
  then show ?case by simp
next
  case (Cons repo rest)
  obtain r d1 where p: "processRepository e c repo d = (r, d1)" by force
  with Cons.prems obtain result where r: "r = Inr result"
    by (cases r) auto
  from p r Cons.prems have run: "discover_loop e c rest
      (if shouldRegister result then acc @ [location result] else acc) d1 = (Inr out, d')"
    by simp
  note ok = process_ok [OF p [unfolded r]]
  have lt: "issued d < issued d1" using p process_issued by blast
  have le: "issued d1 \<le> issued d'" using run by (rule loop_issued)
  show ?case
  proof (cases "k \<in> repoKeyOf ` set (spec_delta (stored_version (rows d1)) rest)")
    case True
    with run have "\<exists>r n. where_first k (rows d') = Some r \<and> issued d1 < n \<and>
        Suc n < issued d' \<and> last_seen_at r = now_at e n \<and>
        last_registered_at r = Some (now_at e (Suc n))"
      by (rule Cons.IH)
    with lt show ?thesis by (meson less_trans)
  next
    case False
    with run have keep: "where_first k (rows d') = where_first k (rows d1)"
      by (rule loop_frame_delta)
    show ?thesis
    proof (cases "stored_version (rows d) (repoKeyOf repo) = Some (version repo)")
      case True
      with ok have "rows d1 = rows d" by simp
      with True False Cons.prems(2) show ?thesis by simp
    next
      case changed: False
      with ok obtain t where
        rows: "rows d1 = register_rows (repoKeyOf repo) (now_at e (Suc (Suc (issued d))))
                  (upsert_rows (repoKeyOf repo) t (now_at e (Suc (issued d))) (rows d))"
        and i1: "issued d1 = Suc (Suc (Suc (issued d)))"
        and col: "column_text (version repo) = Some t"
        by auto
      have sv: "stored_version (rows d1) =
          (stored_version (rows d))(repoKeyOf repo := recorded (version repo))"
        by (simp add: rows col stored_version_processed recorded_def)
      from changed False Cons.prems(2) have k: "k = repoKeyOf repo"
        by (auto simp: sv)
      have "where_first k (rows d1) =
           Some \<lparr>repo_key = k, manifest_version = t,
                 last_seen_at = now_at e (Suc (issued d)),
                 last_registered_at = Some (now_at e (Suc (Suc (issued d))))\<rparr>"
        by (simp add: rows k where_first_processed)
      with keep have "where_first k (rows d') =
           Some \<lparr>repo_key = k, manifest_version = t,
                 last_seen_at = now_at e (Suc (issued d)),
                 last_registered_at = Some (now_at e (Suc (Suc (issued d))))\<rparr>"
        by simp
      moreover have "issued d < Suc (issued d)" "Suc (Suc (issued d)) < issued d'"
        using i1 le by simp_all
      ultimately show ?thesis by force
    qed
  qed
qed

lemma spec_store_keep:
  "m k = Some v \<Longrightarrow> \<forall>b\<in>set repos. repoKeyOf b = k \<longrightarrow> version b = v \<Longrightarrow>
   spec_store m repos k = Some v"
proof (induction repos arbitrary: m)
  case Nil
  then show ?case by simp
next
  case (Cons repo rest)
  from Cons.prems(2) have rest: "\<forall>b\<in>set rest. repoKeyOf b = k \<longrightarrow> version b = v"
    by (blast intro: list.set_intros)
  from Cons.prems(2) have head: "repoKeyOf repo = k \<longrightarrow> version repo = v"
    by (blast intro: list.set_intros)
  show ?case
  proof (cases "m (repoKeyOf repo) = Some (version repo)")
    case True
    have "spec_store m rest k = Some v"
      using Cons.prems(1) rest by (rule Cons.IH)
    with True show ?thesis by simp
  next
    case False
    with Cons.prems(1) head have "repoKeyOf repo \<noteq> k" by auto
    with Cons.prems(1) have "(m(repoKeyOf repo := recorded (version repo))) k = Some v"
      by simp
    then have "spec_store (m(repoKeyOf repo := recorded (version repo))) rest k = Some v"
      using rest by (rule Cons.IH)
    with False show ?thesis by simp
  qed
qed

lemma spec_store_consistent:
  "\<forall>a\<in>set repos. \<forall>b\<in>set repos. repoKeyOf a = repoKeyOf b \<longrightarrow> version a = version b \<Longrightarrow>
   \<forall>a\<in>set repos. \<exists>s. version a = JString s \<Longrightarrow>
   a \<in> set repos \<Longrightarrow> spec_store m repos (repoKeyOf a) = Some (version a)"
proof (induction repos arbitrary: m)
  case Nil
  then show ?case by simp
next
  case (Cons repo rest)
  have rest: "\<forall>a\<in>set rest. \<forall>b\<in>set rest. repoKeyOf a = repoKeyOf b \<longrightarrow> version a = version b"
    using Cons.prems(1) by (blast intro: list.set_intros)
  have strings: "\<forall>a\<in>set rest. \<exists>s. version a = JString s"
    using Cons.prems(2) by (blast intro: list.set_intros)
  have head: "\<forall>b\<in>set rest. repoKeyOf b = repoKeyOf repo \<longrightarrow> version b = version repo"
    using Cons.prems(1) by (blast intro: list.set_intros)
  from Cons.prems(2) obtain s where s: "version repo = JString s"
    by (blast intro: list.set_intros)
  then have rec: "recorded (version repo) = Some (version repo)"
    by (simp add: recorded_def column_text_def)
  show ?case
  proof (cases "a \<in> set rest")
    case True
    have tail: "spec_store m' rest (repoKeyOf a) = Some (version a)" for m'
      using rest strings True by (rule Cons.IH)
    show ?thesis
      by (cases "m (repoKeyOf repo) = Some (version repo)") (simp_all add: tail)
  next
    case False
    with Cons.prems(3) have a: "a = repo" by simp
    have kept: "spec_store m' rest (repoKeyOf repo) = Some (version repo)"
      if "m' (repoKeyOf repo) = Some (version repo)" for m'
      using that head by (rule spec_store_keep)
    show ?thesis
    proof (cases "m (repoKeyOf repo) = Some (version repo)")
      case True
      with kept [of m, OF True] show ?thesis unfolding a by simp
    next
      case changed: False
      have "(m(repoKeyOf repo := recorded (version repo))) (repoKeyOf repo) =
          Some (version repo)"
        by (simp add: rec)
      from kept [of "m(repoKeyOf repo := recorded (version repo))", OF this] changed
      show ?thesis unfolding a by simp
    qed
  qed
qed

lemma loop_all_unchanged:
  "\<forall>a\<in>set repos. stored_version (rows d) (repoKeyOf a) = Some (version a) \<Longrightarrow>
   \<forall>n. issued d \<le> n \<and> n < issued d + length repos \<longrightarrow> \<not> fails_at e n \<Longrightarrow>
   discover_loop e c repos acc d = (Inr acc, \<lparr>rows = rows d, issued = issued d + length repos\<rparr>)"
proof (induction repos arbitrary: d)
  case Nil
  then show ?case by simp
next
  case (Cons repo rest)
  let ?d1 = "\<lparr>rows = rows d, issued = Suc (issued d)\<rparr>"
  from Cons.prems(2) have "\<not> fails_at e (issued d)" by simp
  moreover from Cons.prems(1)
  have "stored_version (rows d) (repoKeyOf repo) = Some (version repo)" by simp
  ultimately have p: "processRepository e c repo d =
      (Inr \<lparr>location = createLocationEntity c repo, shouldRegister = False\<rparr>, ?d1)"
    by (simp add: processRepository_eq)
  have stored: "\<forall>a\<in>set rest. stored_version (rows ?d1) (repoKeyOf a) = Some (version a)"
    using Cons.prems(1) by simp
  have ok: "\<forall>n. issued ?d1 \<le> n \<and> n < issued ?d1 + length rest \<longrightarrow> \<not> fails_at e n"
  proof (intro allI impI)
    fix n
    assume "issued ?d1 \<le> n \<and> n < issued ?d1 + length rest"
    then have "issued d \<le> n \<and> n < issued d + length (repo # rest)" by simp
    with Cons.prems(2) show "\<not> fails_at e n" by blast
  qed
  have "discover_loop e c rest acc ?d1 =
      (Inr acc, \<lparr>rows = rows ?d1, issued = issued ?d1 + length rest\<rparr>)"
    using stored ok by (rule Cons.IH)
  with p show ?case by simp
qed

lemma loop_append:
  "discover_loop e c (xs @ ys) acc d =
     (case discover_loop e c xs acc d of
        (Inl err, d') \<Rightarrow> (Inl err, d')
      | (Inr acc', d') \<Rightarrow> discover_loop e c ys acc' d')"
proof (induction xs arbitrary: acc d)
  case Nil
  then show ?case by simp
next
  case (Cons x xs)
  obtain r d1 where p: "processRepository e c x d = (r, d1)" by force
  show ?case
  proof (cases r)
    case (Inl err)
    with p show ?thesis by simp
  next
    case (Inr result)
    with p Cons.IH show ?thesis by simp
  qed
qed

lemma process_error:
  "processRepository e c repo d = (Inl err, d') \<Longrightarrow>
   err = StoreError \<and>
   ((rows d' = rows d \<and> issued d' \<le> Suc (Suc (issued d)) \<and>
     (fails_at e (issued d) \<or> fails_at e (Suc (issued d)) \<or> version repo = JNullish)) \<or>
    (\<exists>t. column_text (version repo) = Some t \<and> fails_at e (Suc (Suc (issued d))) \<and>
         rows d' = upsert_rows (repoKeyOf repo) t (now_at e (Suc (issued d))) (rows d) \<and>
         issued d' = Suc (Suc (Suc (issued d)))))"
  unfolding processRepository_eq
  by (cases "version repo") (auto split: if_splits simp: column_text_def)

lemma fetch_ok_shape:
  assumes "fetchManifest c f = Inr manifest"
  shows "\<exists>sp. spec manifest = Some sp \<and> repositories sp = Some (fetched_repositories c f)"
proof -
  from assms obtain sp repos where "spec manifest = Some sp" "repositories sp = Some repos"
    unfolding fetchManifest_def
    by (auto split: option.splits http_result.splits if_splits yaml_value.splits)
  with assms show ?thesis by (simp add: fetched_repositories_def)
qed

lemma discover_stops:
  assumes "connection w = None \<or> (\<exists>err. fetchManifest c f = Inl err)"
  shows "\<exists>err. discover c f e sink_rejects w = (Inl err, w)"
  using assms by (auto simp: discover_def split: option.splits)

lemma discover_connected:
  assumes conn: "connection w = Some accepted" and fetched: "fetchManifest c f = Inr manifest"
  shows "discover c f e sink_rejects w =
    (case discover_loop e c (fetched_repositories c f) [] (db w) of
       (Inl err, d') \<Rightarrow> (Inl err, \<lparr>db = d', connection = Some accepted\<rparr>)
     | (Inr locs, d') \<Rightarrow>
         (if locs = [] then (Inr (), \<lparr>db = d', connection = Some accepted\<rparr>)
          else if sink_rejects \<lparr>mutation_type = ''delta'',
                                added = map (\<lambda>l. \<lparr>entity = l, locationKey = getProviderName\<rparr>) locs,
                                removed = []\<rparr>
          then (Inl SinkError, \<lparr>db = d', connection = Some accepted\<rparr>)
          else (Inr (), \<lparr>db = d', connection = Some (accepted @
                  [\<lparr>mutation_type = ''delta'',
                    added = map (\<lambda>l. \<lparr>entity = l, locationKey = getProviderName\<rparr>) locs,
                    removed = []\<rparr>])\<rparr>)))"
proof -
  from fetch_ok_shape [OF fetched] obtain sp
    where sp: "spec manifest = Some sp" "repositories sp = Some (fetched_repositories c f)"
    by blast
  obtain r d' where l: "discover_loop e c (fetched_repositories c f) [] (db w) = (r, d')"
    by force
  show ?thesis
    using conn fetched sp l
    by (cases w; cases r) (simp_all add: discover_def Let_def)
qed

section \<open>Evaluating the sample data\<close>

lemma quiet_simps [simp]: "now_at quiet n = 100 + n" "fails_at quiet n = False"
  by (simp_all add: quiet_def)

lemma repo_simps [simp]:
  "repoKeyOf (repoA v) = ''w/a''" "version (repoA v) = JString v"
  "repoKeyOf (repoB v) = ''w/b''" "version (repoB v) = JString v"
  "repoKeyOf repoA_number = ''w/a''" "version repoA_number = JOther ''1.5''"
  "repoKeyOf repoA_unversioned = ''w/a''" "version repoA_unversioned = JNullish"
  by (simp_all add: repoA_def repoB_def repoA_number_def repoA_unversioned_def repoKeyOf_def)

text \<open>The equations that evaluate a pass on sample data.\<close>

lemmas ev = processRepository_eq stored_version_def where_first_def column_text_def
        upsert_rows_def register_rows_def insert_on_conflict_merge_def where_update_def

lemma flaky_simps [simp]: "now_at (flaky k) n = 100 + n" "fails_at (flaky k) n = (n = k)"
  by (simp_all add: flaky_def)

lemma fetch_net [simp]:
  "fetchManifest c (net repos) =
     Inr \<lparr>manifest_apiVersion = ''backstage.io/v1alpha1'',
          manifest_kind = ''BitbucketRepoManifest'',
          manifest_name = ''org-repos'',
          spec = Some \<lparr>repositories = Some repos\<rparr>\<rparr>"
  by (simp add: fetchManifest_def net_def)

section \<open>The contract of the store\<close>

text \<open>
  C6. \<^verbatim>\<open>upsertSeen(repoKey, version)\<close>, when its statement is not rejected and the
  version has a text (every string has: itself), succeeds; if the table held no row for the
  key, the key's row afterwards has the given version, \<^verbatim>\<open>last_seen_at = now\<close> and no
  \<^verbatim>\<open>last_registered_at\<close>; if it held one, the row afterwards is that row with only
  \<^verbatim>\<open>manifest_version\<close> and \<^verbatim>\<open>last_seen_at\<close> overwritten, so
  \<^verbatim>\<open>last_registered_at\<close> is as before. Rows of other keys read as before, and on a
  table that respects the primary key the table afterwards respects it and has exactly one
  row for the key.
\<close>

theorem upsertSeen_contract:
  assumes ok: "\<not> fails_at e (issued d)" and pk: "primary_key_ok (rows d)"
    and col: "column_text v = Some t"
  shows "\<exists>d'. upsertSeen e k v d = (Inr (), d') \<and>
           where_first k (rows d') =
             (case where_first k (rows d) of
                None \<Rightarrow> Some \<lparr>repo_key = k, manifest_version = t,
                               last_seen_at = now_at e (issued d), last_registered_at = None\<rparr>
              | Some r \<Rightarrow> Some (r\<lparr>manifest_version := t, last_seen_at := now_at e (issued d)\<rparr>)) \<and>
           (\<forall>k'. k' \<noteq> k \<longrightarrow> where_first k' (rows d') = where_first k' (rows d)) \<and>
           primary_key_ok (rows d') \<and>
           length (filter (\<lambda>r. repo_key r = k) (rows d')) = 1"
proof -
  let ?rs = "upsert_rows k t (now_at e (issued d)) (rows d)"
  let ?d = "\<lparr>rows = ?rs, issued = Suc (issued d)\<rparr>"
  have run: "upsertSeen e k v d = (Inr (), ?d)"
    using ok col by (simp add: upsertSeen_def run_statement_def)
  have pk': "primary_key_ok ?rs"
    using pk by (rule primary_key_upsert)
  have one: "length (filter (\<lambda>r. repo_key r = k) ?rs) = 1"
    using pk' key_in_upsert [of k t "now_at e (issued d)" "rows d"]
    unfolding primary_key_ok_def by (rule count_key_distinct)
  show ?thesis
    using run pk' one
    by (simp add: where_first_upsert_same where_first_upsert_other)
qed

theorem upsertSeen_contract_witness:
  "\<exists>d'. upsertSeen \<lparr>now_at = (\<lambda>n. 100 + n), fails_at = (\<lambda>n. False)\<rparr> ''acme/api''
          (JString ''1.0.1'')
          \<lparr>rows = [\<lparr>repo_key = ''acme/api'', manifest_version = ''1.0.0'',
                     last_seen_at = 7, last_registered_at = Some 8\<rparr>], issued = 4\<rparr> = (Inr (), d') \<and>
        where_first ''acme/api'' (rows d') =
          Some \<lparr>repo_key = ''acme/api'', manifest_version = ''1.0.1'',
                last_seen_at = 104, last_registered_at = Some 8\<rparr> \<and>
        primary_key_ok (rows d') \<and>
        length (filter (\<lambda>r. repo_key r = ''acme/api'') (rows d')) = 1"
  using upsertSeen_contract
          [of "\<lparr>now_at = (\<lambda>n. 100 + n), fails_at = (\<lambda>n. False)\<rparr>"
              "\<lparr>rows = [\<lparr>repo_key = ''acme/api'', manifest_version = ''1.0.0'',
                         last_seen_at = 7, last_registered_at = Some 8\<rparr>], issued = 4\<rparr>"
              "JString ''1.0.1''" "''1.0.1''" "''acme/api''"]
  by (auto simp add: primary_key_ok_def where_first_def column_text_def)

text \<open>
  C7, as the code has it. \<^verbatim>\<open>markRegistered(repoKey)\<close> is one \<^verbatim>\<open>UPDATE\<close> restricted
  to the key and does not look at the number of rows it changed. On the sample below the
  table is empty, and the call returns without error and leaves the table empty.
\<close>

theorem markRegistered_missing_key_counterexample:
  "markRegistered quiet ''w/a'' \<lparr>rows = [], issued = 0\<rparr> = (Inr (), \<lparr>rows = [], issued = 1\<rparr>)"
  by (simp add: markRegistered_def run_statement_def register_rows_def where_update_def)

text \<open>
  C7, amended. When its statement is not rejected, \<^verbatim>\<open>markRegistered(repoKey)\<close>
  succeeds; it sets \<^verbatim>\<open>last_registered_at = now\<close> on the row of the key if there is one
  and changes no other key, and when there is no row for the key the table is left exactly
  as it was.
\<close>

theorem markRegistered_contract:
  assumes "\<not> fails_at e (issued d)"
  shows "\<exists>d'. markRegistered e k d = (Inr (), d') \<and>
           where_first k (rows d') =
             map_option (\<lambda>r. r\<lparr>last_registered_at := Some (now_at e (issued d))\<rparr>)
               (where_first k (rows d)) \<and>
           (\<forall>k'. k' \<noteq> k \<longrightarrow> where_first k' (rows d') = where_first k' (rows d)) \<and>
           (where_first k (rows d) = None \<longrightarrow> rows d' = rows d)"
  using assms
  by (simp add: markRegistered_def run_statement_def where_first_register register_rows_missing)

theorem markRegistered_contract_witness:
  "\<exists>d'. markRegistered quiet ''w/a''
          \<lparr>rows = [\<lparr>repo_key = ''w/a'', manifest_version = ''1.0.0'',
                     last_seen_at = 7, last_registered_at = None\<rparr>], issued = 5\<rparr> = (Inr (), d') \<and>
        where_first ''w/a'' (rows d') =
          Some \<lparr>repo_key = ''w/a'', manifest_version = ''1.0.0'',
                last_seen_at = 7, last_registered_at = Some 105\<rparr> \<and>
        where_first ''w/b'' (rows d') = None"
  using markRegistered_contract
          [of quiet "\<lparr>rows = [\<lparr>repo_key = ''w/a'', manifest_version = ''1.0.0'',
                     last_seen_at = 7, last_registered_at = None\<rparr>], issued = 5\<rparr>" "''w/a''"]
  by (auto simp add: where_first_def)

section \<open>Classification of one descriptor\<close>

text \<open>
  C2. When no store statement is rejected and the descriptor has a version,
  \<^verbatim>\<open>processRepository\<close> returns, and it declines registration exactly when the table
  holds a row for the key whose version is the very string that the descriptor carries,
  which is the specification's Unchanged; no row is New, and a row with any other string,
  or a descriptor version that is not a string, is Changed. The loop of \<^verbatim>\<open>discover\<close>
  emits the location of the descriptor exactly when registration was not declined.
\<close>

theorem processRepository_classification:
  assumes "\<not> fails_at e (issued d)" and "\<not> fails_at e (Suc (issued d))"
    and "\<not> fails_at e (Suc (Suc (issued d)))" and "version repo \<noteq> JNullish"
  shows "\<exists>res d'. processRepository e c repo d = (Inr res, d') \<and>
           (\<not> shouldRegister res \<longleftrightarrow>
              (\<exists>r. where_first (repoKeyOf repo) (rows d) = Some r \<and>
                   JString (manifest_version r) = version repo)) \<and>
           (\<not> shouldRegister res \<longleftrightarrow>
              spec_classify (where_first (repoKeyOf repo) (rows d)) repo = Unchanged) \<and>
           (where_first (repoKeyOf repo) (rows d) = None \<longleftrightarrow>
              spec_classify (where_first (repoKeyOf repo) (rows d)) repo = New) \<and>
           ((\<exists>r. where_first (repoKeyOf repo) (rows d) = Some r \<and>
                 JString (manifest_version r) \<noteq> version repo) \<longleftrightarrow>
              spec_classify (where_first (repoKeyOf repo) (rows d)) repo = Changed) \<and>
           discover_loop e c [repo] [] d =
             (Inr (if shouldRegister res then [createLocationEntity c repo] else []), d')"
  using assms
  by (cases "where_first (repoKeyOf repo) (rows d)"; cases "version repo")
     (auto simp: processRepository_eq stored_version_def spec_classify_def column_text_def)

theorem processRepository_classification_witness:
  "discover_loop quiet cfg [repoA ''1.0.0 ''] []
     \<lparr>rows = [\<lparr>repo_key = ''w/a'', manifest_version = ''1.0.0'',
                last_seen_at = 7, last_registered_at = Some 8\<rparr>], issued = 0\<rparr> =
   (Inr [createLocationEntity cfg (repoA ''1.0.0 '')],
    \<lparr>rows = [\<lparr>repo_key = ''w/a'', manifest_version = ''1.0.0 '',
                last_seen_at = 101, last_registered_at = Some 102\<rparr>], issued = 3\<rparr>)"
  using processRepository_classification
          [of quiet "\<lparr>rows = [\<lparr>repo_key = ''w/a'', manifest_version = ''1.0.0'',
                last_seen_at = 7, last_registered_at = Some 8\<rparr>], issued = 0\<rparr>" "repoA ''1.0.0 ''" cfg]
  by (auto simp add: ev)

text \<open>
  C5, as the code has it. A descriptor whose version is the stored one returns before any
  write: on the sample below the row was last seen at time 7, the pass runs at time 100,
  and the row still reads 7 afterwards.
\<close>

theorem unchanged_last_seen_counterexample:
  "discover_loop quiet cfg [repoA ''1.0.0''] []
     \<lparr>rows = [\<lparr>repo_key = ''w/a'', manifest_version = ''1.0.0'',
                last_seen_at = 7, last_registered_at = Some 8\<rparr>], issued = 0\<rparr> =
   (Inr [],
    \<lparr>rows = [\<lparr>repo_key = ''w/a'', manifest_version = ''1.0.0'',
                last_seen_at = 7, last_registered_at = Some 8\<rparr>], issued = 1\<rparr>)"
  by (simp add: ev)

text \<open>
  C5, amended. When no store statement is rejected and the descriptor has a version, a
  descriptor classified New or Changed has the \<^verbatim>\<open>last_seen_at\<close> of its key set to the
  time of its upsert, and a descriptor classified Unchanged leaves the whole table,
  \<^verbatim>\<open>last_seen_at\<close> included, as it was.
\<close>

theorem last_seen_only_on_change:
  assumes "\<not> fails_at e (issued d)" and "\<not> fails_at e (Suc (issued d))"
    and "\<not> fails_at e (Suc (Suc (issued d)))" and "version repo \<noteq> JNullish"
  shows "\<exists>res d'. processRepository e c repo d = (Inr res, d') \<and>
           (if stored_version (rows d) (repoKeyOf repo) = Some (version repo)
            then \<not> shouldRegister res \<and> rows d' = rows d
            else shouldRegister res \<and>
                 (\<exists>r. where_first (repoKeyOf repo) (rows d') = Some r \<and>
                      last_seen_at r = now_at e (Suc (issued d))))"
  using assms
  by (cases "version repo")
     (simp_all add: processRepository_eq where_first_processed column_text_def)

theorem last_seen_only_on_change_witness:
  "\<exists>res d'. processRepository quiet cfg (repoA ''1.0.1'')
       \<lparr>rows = [\<lparr>repo_key = ''w/a'', manifest_version = ''1.0.0'',
                last_seen_at = 7, last_registered_at = Some 8\<rparr>], issued = 0\<rparr> = (Inr res, d') \<and>
     shouldRegister res \<and>
     (\<exists>r. where_first ''w/a'' (rows d') = Some r \<and> last_seen_at r = 101)"
  using last_seen_only_on_change
          [of quiet "\<lparr>rows = [\<lparr>repo_key = ''w/a'', manifest_version = ''1.0.0'',
                last_seen_at = 7, last_registered_at = Some 8\<rparr>], issued = 0\<rparr>" "repoA ''1.0.1''" cfg]
  by (simp add: stored_version_def where_first_def)

section \<open>The whole pass\<close>

text \<open>
  C3. In a pass over \<open>N\<close> descriptors, each with a version, in which no store statement
  is rejected, the loop returns, and its output is the location of each descriptor classified
  New or Changed, in manifest order and nothing else, so it has exactly \<open>K\<close> entries when
  \<open>K\<close> descriptors are so classified. The versions stored afterwards are those the
  specification's pass leaves. A key that belongs to none of the \<open>K\<close> descriptors reads
  exactly as before the pass; a key that belongs to one of them has a row whose
  \<^verbatim>\<open>last_seen_at\<close> and \<^verbatim>\<open>last_registered_at\<close> are the times of two consecutive
  statements of this pass.
\<close>

theorem delta_minimality:
  assumes quiet: "\<forall>n\<ge>issued d. \<not> fails_at e n"
    and versions: "\<forall>r\<in>set repos. version r \<noteq> JNullish"
  shows "\<exists>out d'. discover_loop e c repos [] d = (Inr out, d') \<and>
           out = map (createLocationEntity c) (spec_delta (stored_version (rows d)) repos) \<and>
           length out = length (spec_delta (stored_version (rows d)) repos) \<and>
           stored_version (rows d') = spec_store (stored_version (rows d)) repos \<and>
           (\<forall>k. k \<notin> repoKeyOf ` set (spec_delta (stored_version (rows d)) repos) \<longrightarrow>
                where_first k (rows d') = where_first k (rows d)) \<and>
           (\<forall>k. k \<in> repoKeyOf ` set (spec_delta (stored_version (rows d)) repos) \<longrightarrow>
                (\<exists>r n. where_first k (rows d') = Some r \<and> issued d < n \<and> Suc n < issued d' \<and>
                       last_seen_at r = now_at e n \<and>
                       last_registered_at r = Some (now_at e (Suc n))))"
proof -
  from loop_total [OF quiet versions] obtain out d'
    where run: "discover_loop e c repos [] d = (Inr out, d')" by blast
  from loop_refines_spec [OF run]
  have out: "out = map (createLocationEntity c) (spec_delta (stored_version (rows d)) repos)"
    and st: "stored_version (rows d') = spec_store (stored_version (rows d)) repos"
    by simp_all
  have frame: "\<forall>k. k \<notin> repoKeyOf ` set (spec_delta (stored_version (rows d)) repos) \<longrightarrow>
                where_first k (rows d') = where_first k (rows d)"
    using loop_frame_delta [OF run] by blast
  have stamps: "\<forall>k. k \<in> repoKeyOf ` set (spec_delta (stored_version (rows d)) repos) \<longrightarrow>
                (\<exists>r n. where_first k (rows d') = Some r \<and> issued d < n \<and> Suc n < issued d' \<and>
                       last_seen_at r = now_at e n \<and>
                       last_registered_at r = Some (now_at e (Suc n)))"
    using loop_stamps [OF run] by blast
  from out have "length out = length (spec_delta (stored_version (rows d)) repos)" by simp
  with run out st frame stamps show ?thesis by blast
qed

theorem delta_minimality_witness:
  "\<exists>d'. discover_loop quiet cfg [repoA ''1.0.0'', repoB ''2.1.0''] []
      \<lparr>rows = [\<lparr>repo_key = ''w/a'', manifest_version = ''1.0.0'',
                 last_seen_at = 101, last_registered_at = Some 102\<rparr>,
               \<lparr>repo_key = ''w/b'', manifest_version = ''2.0.0'',
                 last_seen_at = 104, last_registered_at = Some 105\<rparr>], issued = 6\<rparr> =
     (Inr [createLocationEntity cfg (repoB ''2.1.0'')], d') \<and>
     where_first ''w/a'' (rows d') =
       Some \<lparr>repo_key = ''w/a'', manifest_version = ''1.0.0'',
             last_seen_at = 101, last_registered_at = Some 102\<rparr> \<and>
     stored_version (rows d') ''w/b'' = Some (JString ''2.1.0'')"
proof -
  let ?D = "\<lparr>rows = [\<lparr>repo_key = ''w/a'', manifest_version = ''1.0.0'',
                 last_seen_at = 101, last_registered_at = Some 102\<rparr>,
               \<lparr>repo_key = ''w/b'', manifest_version = ''2.0.0'',
                 last_seen_at = 104, last_registered_at = Some 105\<rparr>], issued = 6\<rparr>"
  let ?M = "[repoA ''1.0.0'', repoB ''2.1.0'']"
  have q: "\<forall>n\<ge>issued ?D. \<not> fails_at quiet n" by simp
  have v: "\<forall>r\<in>set ?M. version r \<noteq> JNullish" by simp
  have delta: "spec_delta (stored_version (rows ?D)) ?M = [repoB ''2.1.0'']"
    by (simp add: stored_version_def where_first_def)
  have store: "spec_store (stored_version (rows ?D)) ?M ''w/b'' = Some (JString ''2.1.0'')"
    by (simp add: stored_version_def where_first_def recorded_def column_text_def)
  from delta_minimality [OF q v, of cfg] obtain out d'
    where run: "discover_loop quiet cfg ?M [] ?D = (Inr out, d')"
      and out: "out = map (createLocationEntity cfg) (spec_delta (stored_version (rows ?D)) ?M)"
      and st: "stored_version (rows d') = spec_store (stored_version (rows ?D)) ?M"
      and frame: "\<forall>k. k \<notin> repoKeyOf ` set (spec_delta (stored_version (rows ?D)) ?M) \<longrightarrow>
                where_first k (rows d') = where_first k (rows ?D)"
    by blast
  from frame have "where_first ''w/a'' (rows d') = where_first ''w/a'' (rows ?D)"
    unfolding delta by simp
  then have a: "where_first ''w/a'' (rows d') =
       Some \<lparr>repo_key = ''w/a'', manifest_version = ''1.0.0'',
             last_seen_at = 101, last_registered_at = Some 102\<rparr>"
    by (simp add: where_first_def)
  from st store have b: "stored_version (rows d') ''w/b'' = Some (JString ''2.1.0'')" by simp
  from run out delta have "discover_loop quiet cfg ?M [] ?D =
      (Inr [createLocationEntity cfg (repoB ''2.1.0'')], d')" by simp
  with a b show ?thesis by blast
qed

text \<open>
  C1, as the code has it. A manifest may list one key twice with different versions. On the
  sample below the first pass over an empty table stores the second version, and the second
  pass over the same manifest finds the first entry changed, then the second, and emits
  both locations again.
\<close>

theorem repeated_key_second_pass_counterexample:
  "discover_loop quiet cfg [repoA ''1'', repoA ''2''] [] \<lparr>rows = [], issued = 0\<rparr> =
     (Inr [createLocationEntity cfg (repoA ''1''), createLocationEntity cfg (repoA ''2'')],
      \<lparr>rows = [\<lparr>repo_key = ''w/a'', manifest_version = ''2'',
                 last_seen_at = 104, last_registered_at = Some 105\<rparr>], issued = 6\<rparr>) \<and>
   discover_loop quiet cfg [repoA ''1'', repoA ''2''] []
      \<lparr>rows = [\<lparr>repo_key = ''w/a'', manifest_version = ''2'',
                 last_seen_at = 104, last_registered_at = Some 105\<rparr>], issued = 6\<rparr> =
     (Inr [createLocationEntity cfg (repoA ''1''), createLocationEntity cfg (repoA ''2'')],
      \<lparr>rows = [\<lparr>repo_key = ''w/a'', manifest_version = ''2'',
                 last_seen_at = 110, last_registered_at = Some 111\<rparr>], issued = 12\<rparr>)"
proof (rule conjI)
  show "discover_loop quiet cfg [repoA ''1'', repoA ''2''] [] \<lparr>rows = [], issued = 0\<rparr> =
     (Inr [createLocationEntity cfg (repoA ''1''), createLocationEntity cfg (repoA ''2'')],
      \<lparr>rows = [\<lparr>repo_key = ''w/a'', manifest_version = ''2'',
                 last_seen_at = 104, last_registered_at = Some 105\<rparr>], issued = 6\<rparr>)"
    by (simp add: ev)
  show "discover_loop quiet cfg [repoA ''1'', repoA ''2''] []
      \<lparr>rows = [\<lparr>repo_key = ''w/a'', manifest_version = ''2'',
                 last_seen_at = 104, last_registered_at = Some 105\<rparr>], issued = 6\<rparr> =
     (Inr [createLocationEntity cfg (repoA ''1''), createLocationEntity cfg (repoA ''2'')],
      \<lparr>rows = [\<lparr>repo_key = ''w/a'', manifest_version = ''2'',
                 last_seen_at = 110, last_registered_at = Some 111\<rparr>], issued = 12\<rparr>)"
    by (simp add: ev)
qed

text \<open>
  The same happens with a single descriptor whose version the manifest gives as a number:
  the table holds its text, which \<^verbatim>\<open>===\<close> never finds equal to the number, so every
  pass finds the descriptor changed and emits its location again.
\<close>

theorem numeric_version_second_pass:
  "discover_loop quiet cfg [repoA_number] [] \<lparr>rows = [], issued = 0\<rparr> =
     (Inr [createLocationEntity cfg repoA_number],
      \<lparr>rows = [\<lparr>repo_key = ''w/a'', manifest_version = ''1.5'',
                 last_seen_at = 101, last_registered_at = Some 102\<rparr>], issued = 3\<rparr>) \<and>
   discover_loop quiet cfg [repoA_number] []
      \<lparr>rows = [\<lparr>repo_key = ''w/a'', manifest_version = ''1.5'',
                 last_seen_at = 101, last_registered_at = Some 102\<rparr>], issued = 3\<rparr> =
     (Inr [createLocationEntity cfg repoA_number],
      \<lparr>rows = [\<lparr>repo_key = ''w/a'', manifest_version = ''1.5'',
                 last_seen_at = 104, last_registered_at = Some 105\<rparr>], issued = 6\<rparr>)"
proof (rule conjI)
  show "discover_loop quiet cfg [repoA_number] [] \<lparr>rows = [], issued = 0\<rparr> =
     (Inr [createLocationEntity cfg repoA_number],
      \<lparr>rows = [\<lparr>repo_key = ''w/a'', manifest_version = ''1.5'',
                 last_seen_at = 101, last_registered_at = Some 102\<rparr>], issued = 3\<rparr>)"
    by (simp add: ev)
  show "discover_loop quiet cfg [repoA_number] []
      \<lparr>rows = [\<lparr>repo_key = ''w/a'', manifest_version = ''1.5'',
                 last_seen_at = 101, last_registered_at = Some 102\<rparr>], issued = 3\<rparr> =
     (Inr [createLocationEntity cfg repoA_number],
      \<lparr>rows = [\<lparr>repo_key = ''w/a'', manifest_version = ''1.5'',
                 last_seen_at = 104, last_registered_at = Some 105\<rparr>], issued = 6\<rparr>)"
    by (simp add: ev)
qed

text \<open>
  C1, amended. Let a manifest be such that every version in it is a string and any two
  descriptors with the same key carry the same version. After a first pass over it that
  completed, a second pass over the same manifest in which no store statement is rejected
  classifies every descriptor as Unchanged, emits no location and leaves the table as it is,
  having sent one read per descriptor.
\<close>

theorem second_pass_empty:
  assumes first: "discover_loop e1 c repos [] d = (Inr out1, d1)"
    and strings: "\<forall>a\<in>set repos. \<exists>s. version a = JString s"
    and consistent: "\<forall>a\<in>set repos. \<forall>b\<in>set repos.
                       repoKeyOf a = repoKeyOf b \<longrightarrow> version a = version b"
    and quiet2: "\<forall>n\<ge>issued d1. \<not> fails_at e2 n"
  shows "discover_loop e2 c repos [] d1 =
           (Inr [], \<lparr>rows = rows d1, issued = issued d1 + length repos\<rparr>) \<and>
         (\<forall>a\<in>set repos. spec_classify (where_first (repoKeyOf a) (rows d1)) a = Unchanged)"
proof -
  have sv: "stored_version (rows d1) = spec_store (stored_version (rows d)) repos"
    using loop_refines_spec [OF first] by simp
  have all: "\<forall>a\<in>set repos. stored_version (rows d1) (repoKeyOf a) = Some (version a)"
    using spec_store_consistent [OF consistent strings] by (simp add: sv)
  have "discover_loop e2 c repos [] d1 =
           (Inr [], \<lparr>rows = rows d1, issued = issued d1 + length repos\<rparr>)"
  proof (rule loop_all_unchanged [OF all])
    show "\<forall>n. issued d1 \<le> n \<and> n < issued d1 + length repos \<longrightarrow> \<not> fails_at e2 n"
      using quiet2 by blast
  qed
  moreover have "\<forall>a\<in>set repos. spec_classify (where_first (repoKeyOf a) (rows d1)) a = Unchanged"
  proof
    fix a
    assume "a \<in> set repos"
    with all have "stored_version (rows d1) (repoKeyOf a) = Some (version a)" by blast
    then show "spec_classify (where_first (repoKeyOf a) (rows d1)) a = Unchanged"
      by (cases "where_first (repoKeyOf a) (rows d1)")
         (auto simp add: stored_version_def spec_classify_def)
  qed
  ultimately show ?thesis by simp
qed

theorem second_pass_empty_witness:
  "discover_loop quiet cfg [repoA ''1.0.0'', repoB ''2.0.0'', repoA ''1.0.0''] []
      \<lparr>rows = [\<lparr>repo_key = ''w/a'', manifest_version = ''1.0.0'',
                 last_seen_at = 101, last_registered_at = Some 102\<rparr>,
               \<lparr>repo_key = ''w/b'', manifest_version = ''2.0.0'',
                 last_seen_at = 104, last_registered_at = Some 105\<rparr>], issued = 7\<rparr> =
     (Inr [],
      \<lparr>rows = [\<lparr>repo_key = ''w/a'', manifest_version = ''1.0.0'',
                 last_seen_at = 101, last_registered_at = Some 102\<rparr>,
               \<lparr>repo_key = ''w/b'', manifest_version = ''2.0.0'',
                 last_seen_at = 104, last_registered_at = Some 105\<rparr>], issued = 10\<rparr>)"
proof -
  have first: "discover_loop quiet cfg [repoA ''1.0.0'', repoB ''2.0.0'', repoA ''1.0.0''] []
      \<lparr>rows = [], issued = 0\<rparr> =
     (Inr [createLocationEntity cfg (repoA ''1.0.0''), createLocationEntity cfg (repoB ''2.0.0'')],
      \<lparr>rows = [\<lparr>repo_key = ''w/a'', manifest_version = ''1.0.0'',
                 last_seen_at = 101, last_registered_at = Some 102\<rparr>,
               \<lparr>repo_key = ''w/b'', manifest_version = ''2.0.0'',
                 last_seen_at = 104, last_registered_at = Some 105\<rparr>], issued = 7\<rparr>)"
    by (simp add: ev)
  have strings: "\<forall>a\<in>set [repoA ''1.0.0'', repoB ''2.0.0'', repoA ''1.0.0''].
      \<exists>s. version a = JString s"
    by simp
  have consistent: "\<forall>a\<in>set [repoA ''1.0.0'', repoB ''2.0.0'', repoA ''1.0.0''].
      \<forall>b\<in>set [repoA ''1.0.0'', repoB ''2.0.0'', repoA ''1.0.0''].
        repoKeyOf a = repoKeyOf b \<longrightarrow> version a = version b"
    by simp
  have quiet2: "\<forall>n\<ge>issued \<lparr>rows = [\<lparr>repo_key = ''w/a'', manifest_version = ''1.0.0'',
                 last_seen_at = 101, last_registered_at = Some 102\<rparr>,
               \<lparr>repo_key = ''w/b'', manifest_version = ''2.0.0'',
                 last_seen_at = 104, last_registered_at = Some 105\<rparr>], issued = 7\<rparr>.
            \<not> fails_at quiet n"
    by simp
  from second_pass_empty [OF first strings consistent quiet2] show ?thesis by simp
qed

text \<open>
  C4, as the code has it. \<^verbatim>\<open>processRepository\<close> is awaited inside the loop with no
  handler around it, and the handler around the whole pass logs and rethrows. On the sample
  below the upsert of the first of two new repositories is rejected: the pass ends with the
  storage error, the second repository is never looked up or stored, and the sink receives
  nothing.
\<close>

theorem store_error_counterexample:
  "discover cfg (net [repoA ''1'', repoB ''1'']) (flaky 1) accepting
     \<lparr>db = \<lparr>rows = [], issued = 0\<rparr>, connection = Some []\<rparr> =
   (Inl StoreError, \<lparr>db = \<lparr>rows = [], issued = 2\<rparr>, connection = Some []\<rparr>)"
  by (simp add: discover_def ev)

text \<open>
  C4, amended. If a store call fails for one descriptor, the failure ends the pass:
  \<^verbatim>\<open>discover\<close> fails with the store error and the sink receives nothing, not even the
  locations of the descriptors before the failing one. Those descriptors were processed as
  in a pass that stops after them, and their store writes stay: every key other than the
  failing descriptor's reads as it did after them. Of the failing descriptor itself nothing
  is written when its lookup or its upsert fails (which a missing version brings about);
  when its register call fails, its upsert stays in the table, so the new version is stored
  while \<^verbatim>\<open>last_registered_at\<close> is not set by this pass. No descriptor after the failing
  one is looked up, written or emitted: the pass sends at most three statements for the
  failing descriptor and none afterwards, and a key that belongs neither to it nor to an
  earlier descriptor reads as before the pass.
\<close>

theorem store_error_aborts_pass:
  assumes conn: "connection w = Some accepted"
    and fetched: "fetchManifest c f = Inr manifest" "spec manifest = Some sp"
                 "repositories sp = Some (pre @ repo # post)"
    and before: "discover_loop e c pre [] (db w) = (Inr out, d1)"
    and failure: "processRepository e c repo d1 = (Inl err, d2)"
  shows "discover c f e sink_rejects w = (Inl StoreError, \<lparr>db = d2, connection = Some accepted\<rparr>) \<and>
         err = StoreError \<and>
         out = map (createLocationEntity c) (spec_delta (stored_version (rows (db w))) pre) \<and>
         stored_version (rows d1) = spec_store (stored_version (rows (db w))) pre \<and>
         (\<forall>k. k \<noteq> repoKeyOf repo \<longrightarrow> where_first k (rows d2) = where_first k (rows d1)) \<and>
         ((rows d2 = rows d1 \<and> issued d2 \<le> Suc (Suc (issued d1)) \<and>
           (fails_at e (issued d1) \<or> fails_at e (Suc (issued d1)) \<or> version repo = JNullish)) \<or>
          (\<exists>t. column_text (version repo) = Some t \<and> fails_at e (Suc (Suc (issued d1))) \<and>
               rows d2 = upsert_rows (repoKeyOf repo) t (now_at e (Suc (issued d1))) (rows d1) \<and>
               issued d2 = Suc (Suc (Suc (issued d1))))) \<and>
         (\<forall>k. k \<notin> repoKeyOf ` set (pre @ [repo]) \<longrightarrow>
              where_first k (rows d2) = where_first k (rows (db w)))"
proof -
  note pe = process_error [OF failure]
  from pe have err: "err = StoreError" by blast
  have "discover_loop e c (pre @ repo # post) [] (db w) = (Inl err, d2)"
    unfolding loop_append using before failure by simp
  with conn fetched err
  have run: "discover c f e sink_rejects w =
      (Inl StoreError, \<lparr>db = d2, connection = Some accepted\<rparr>)"
    by (cases w) (simp add: discover_def)
  from loop_refines_spec [OF before]
  have earlier: "out = map (createLocationEntity c) (spec_delta (stored_version (rows (db w))) pre)"
    "stored_version (rows d1) = spec_store (stored_version (rows (db w))) pre"
    by simp_all
  have others: "\<forall>k. k \<noteq> repoKeyOf repo \<longrightarrow> where_first k (rows d2) = where_first k (rows d1)"
    using process_frame [OF failure] by blast
  have later: "\<forall>k. k \<notin> repoKeyOf ` set (pre @ [repo]) \<longrightarrow>
      where_first k (rows d2) = where_first k (rows (db w))"
  proof (intro allI impI)
    fix k
    assume k: "k \<notin> repoKeyOf ` set (pre @ [repo])"
    then have "k \<noteq> repoKeyOf repo" and "k \<notin> repoKeyOf ` set pre" by auto
    with others loop_frame [OF before, of k]
    show "where_first k (rows d2) = where_first k (rows (db w))" by simp
  qed
  from run err earlier others pe later show ?thesis by blast
qed

theorem store_error_aborts_pass_witness:
  "discover cfg (net [repoA ''1'', repoB ''1'', repoA ''2'']) (flaky 5) accepting
     \<lparr>db = \<lparr>rows = [], issued = 0\<rparr>, connection = Some []\<rparr> =
   (Inl StoreError,
    \<lparr>db = \<lparr>rows = [\<lparr>repo_key = ''w/a'', manifest_version = ''1'',
                      last_seen_at = 101, last_registered_at = Some 102\<rparr>,
                     \<lparr>repo_key = ''w/b'', manifest_version = ''1'',
                      last_seen_at = 104, last_registered_at = None\<rparr>], issued = 6\<rparr>,
     connection = Some []\<rparr>)"
proof -
  let ?w = "\<lparr>db = \<lparr>rows = [], issued = 0\<rparr>, connection = Some []\<rparr>"
  let ?d1 = "\<lparr>rows = [\<lparr>repo_key = ''w/a'', manifest_version = ''1'',
                      last_seen_at = 101, last_registered_at = Some 102\<rparr>], issued = 3\<rparr>"
  let ?d2 = "\<lparr>rows = [\<lparr>repo_key = ''w/a'', manifest_version = ''1'',
                      last_seen_at = 101, last_registered_at = Some 102\<rparr>,
                     \<lparr>repo_key = ''w/b'', manifest_version = ''1'',
                      last_seen_at = 104, last_registered_at = None\<rparr>], issued = 6\<rparr>"
  have conn: "connection ?w = Some []" by simp
  have before: "discover_loop (flaky 5) cfg [repoA ''1''] [] (db ?w) =
      (Inr [createLocationEntity cfg (repoA ''1'')], ?d1)"
    by (simp add: ev)
  have failure: "processRepository (flaky 5) cfg (repoB ''1'') ?d1 = (Inl StoreError, ?d2)"
    by (simp add: ev)
  have sp: "spec \<lparr>manifest_apiVersion = ''backstage.io/v1alpha1'',
          manifest_kind = ''BitbucketRepoManifest'',
          manifest_name = ''org-repos'',
          spec = Some \<lparr>repositories = Some ([repoA ''1''] @ repoB ''1'' # [repoA ''2''])\<rparr>\<rparr> =
        Some \<lparr>repositories = Some ([repoA ''1''] @ repoB ''1'' # [repoA ''2''])\<rparr>"
    by simp
  have rp: "repositories \<lparr>repositories = Some ([repoA ''1''] @ repoB ''1'' # [repoA ''2''])\<rparr> =
        Some ([repoA ''1''] @ repoB ''1'' # [repoA ''2''])"
    by simp
  from store_error_aborts_pass [OF conn fetch_net sp rp before failure, of accepting]
  have "discover cfg (net ([repoA ''1''] @ repoB ''1'' # [repoA ''2''])) (flaky 5) accepting ?w =
      (Inl StoreError, \<lparr>db = ?d2, connection = Some []\<rparr>)"
    by blast
  then show ?thesis by simp
qed

text \<open>
  A descriptor without a version is such a failure without any fault of the storage: its
  upsert is refused by the \<^verbatim>\<open>notNullable\<close> column, and the pass ends there.
\<close>

theorem missing_version_aborts_pass:
  "discover cfg (net [repoA_unversioned, repoB ''1'']) quiet accepting
     \<lparr>db = \<lparr>rows = [], issued = 0\<rparr>, connection = Some []\<rparr> =
   (Inl StoreError, \<lparr>db = \<lparr>rows = [], issued = 2\<rparr>, connection = Some []\<rparr>)"
  by (simp add: discover_def ev)

section \<open>Failures of the fetch\<close>

text \<open>
  C8. When the manifest cannot be retrieved (the request is rejected, the response is not
  a success, the content does not parse, or the parsed document lacks \<^verbatim>\<open>spec\<close> or
  \<^verbatim>\<open>spec.repositories\<close>), \<^verbatim>\<open>fetchManifest\<close> throws and \<^verbatim>\<open>discover\<close> ends with an
  error in the very state it started from: no statement was sent to the database, the table
  is unchanged, and no mutation reached the sink.
\<close>

theorem fetch_failure_is_fatal:
  assumes "byUrl f (manifestUrl c) = Some cr"
    and "fetch f (manifestUrl c) (request_headers f cr) = Rejected \<or>
         (\<exists>status statusText content.
            fetch f (manifestUrl c) (request_headers f cr) =
              Response False status statusText content) \<or>
         (\<exists>status statusText content.
            fetch f (manifestUrl c) (request_headers f cr) =
              Response True status statusText content \<and>
            (yaml_parse f content = None \<or> yaml_parse f content = Some YamlNull \<or>
             (\<exists>manifest. yaml_parse f content = Some (YamlDoc manifest) \<and>
                (spec manifest = None \<or>
                 (\<exists>sp. spec manifest = Some sp \<and> repositories sp = None)))))"
  shows "(\<exists>err. fetchManifest c f = Inl err) \<and>
         (\<exists>err. discover c f e sink_rejects w = (Inl err, w))"
proof -
  have "\<exists>err. fetchManifest c f = Inl err"
    using assms unfolding fetchManifest_def by auto
  then show ?thesis using discover_stops [of w c f e sink_rejects] by blast
qed

theorem fetch_failure_is_fatal_witness:
  "discover cfg not_found quiet accepting
     \<lparr>db = \<lparr>rows = [\<lparr>repo_key = ''w/a'', manifest_version = ''1'',
                      last_seen_at = 101, last_registered_at = Some 102\<rparr>], issued = 3\<rparr>,
      connection = Some []\<rparr> =
   (Inl (FetchFailed 404 ''Not Found''),
    \<lparr>db = \<lparr>rows = [\<lparr>repo_key = ''w/a'', manifest_version = ''1'',
                      last_seen_at = 101, last_registered_at = Some 102\<rparr>], issued = 3\<rparr>,
      connection = Some []\<rparr>)"
proof -
  let ?w = "\<lparr>db = \<lparr>rows = [\<lparr>repo_key = ''w/a'', manifest_version = ''1'',
                      last_seen_at = 101, last_registered_at = Some 102\<rparr>], issued = 3\<rparr>,
      connection = Some []\<rparr>"
  have by_url: "byUrl not_found (manifestUrl cfg) = Some \<lparr>username = None, appPassword = None\<rparr>"
    by (simp add: not_found_def)
  have response: "fetch not_found (manifestUrl cfg)
        (request_headers not_found \<lparr>username = None, appPassword = None\<rparr>) =
      Response False 404 ''Not Found'' []"
    by (simp add: not_found_def)
  have failed: "fetchManifest cfg not_found = Inl (FetchFailed 404 ''Not Found'')"
    by (simp add: fetchManifest_def not_found_def)
  from fetch_failure_is_fatal [OF by_url, of quiet accepting ?w] response
  obtain err where stop: "discover cfg not_found quiet accepting ?w = (Inl err, ?w)"
    by blast
  from stop failed have "err = FetchFailed 404 ''Not Found''"
    by (simp add: discover_def)
  with stop show ?thesis by simp
qed

section \<open>What reaches the sink\<close>

text \<open>
  C9. Whatever the outcome of a pass, the sink has received either nothing or one mutation
  of type \<^verbatim>\<open>delta\<close> whose list of removals is empty; and a key that is the key of no
  descriptor of the fetched manifest reads in the table exactly as before the pass.
\<close>

theorem no_removals:
  assumes run: "discover c f e sink_rejects w = (res, w')"
  shows "(connection w' = connection w \<or>
          (\<exists>accepted m. connection w = Some accepted \<and> connection w' = Some (accepted @ [m]) \<and>
                         mutation_type m = ''delta'' \<and> removed m = [])) \<and>
         (\<forall>k. k \<notin> repoKeyOf ` set (fetched_repositories c f) \<longrightarrow>
              where_first k (rows (db w')) = where_first k (rows (db w)))"
proof (cases "connection w = None \<or> (\<exists>err. fetchManifest c f = Inl err)")
  case True
  from discover_stops [OF True, of e sink_rejects] run have "w' = w" by auto
  then show ?thesis by simp
next
  case False
  then obtain accepted manifest
    where conn: "connection w = Some accepted" and fetched: "fetchManifest c f = Inr manifest"
    by (cases "fetchManifest c f") auto
  obtain r d' where l: "discover_loop e c (fetched_repositories c f) [] (db w) = (r, d')"
    by force
  have frame: "\<forall>k. k \<notin> repoKeyOf ` set (fetched_repositories c f) \<longrightarrow>
                 where_first k (rows d') = where_first k (rows (db w))"
    using loop_frame [OF l] by blast
  from run have "db w' = d' \<and>
      (connection w' = Some accepted \<or>
       (\<exists>m. connection w' = Some (accepted @ [m]) \<and> mutation_type m = ''delta'' \<and>
            removed m = []))"
    unfolding discover_connected [OF conn fetched] l
    by (cases r) (auto split: if_splits)
  with conn frame show ?thesis by auto
qed

theorem no_removals_witness:
  "discover cfg (net [repoB ''2'']) quiet accepting
     \<lparr>db = \<lparr>rows = [\<lparr>repo_key = ''w/a'', manifest_version = ''1'',
                      last_seen_at = 7, last_registered_at = Some 8\<rparr>], issued = 3\<rparr>,
      connection = Some []\<rparr> =
   (Inr (),
    \<lparr>db = \<lparr>rows = [\<lparr>repo_key = ''w/a'', manifest_version = ''1'',
                      last_seen_at = 7, last_registered_at = Some 8\<rparr>,
                     \<lparr>repo_key = ''w/b'', manifest_version = ''2'',
                      last_seen_at = 104, last_registered_at = Some 105\<rparr>], issued = 6\<rparr>,
      connection = Some [\<lparr>mutation_type = ''delta'',
                           added = [\<lparr>entity = createLocationEntity cfg (repoB ''2''),
                                     locationKey = ''bitbucket-manifest-discover''\<rparr>],
                           removed = []\<rparr>]\<rparr>) \<and>
   ''w/a'' \<notin> repoKeyOf ` set (fetched_repositories cfg (net [repoB ''2'']))"
proof -
  let ?w = "\<lparr>db = \<lparr>rows = [\<lparr>repo_key = ''w/a'', manifest_version = ''1'',
                      last_seen_at = 7, last_registered_at = Some 8\<rparr>], issued = 3\<rparr>,
      connection = Some []\<rparr>"
  let ?w' = "\<lparr>db = \<lparr>rows = [\<lparr>repo_key = ''w/a'', manifest_version = ''1'',
                      last_seen_at = 7, last_registered_at = Some 8\<rparr>,
                     \<lparr>repo_key = ''w/b'', manifest_version = ''2'',
                      last_seen_at = 104, last_registered_at = Some 105\<rparr>], issued = 6\<rparr>,
      connection = Some [\<lparr>mutation_type = ''delta'',
                           added = [\<lparr>entity = createLocationEntity cfg (repoB ''2''),
                                     locationKey = ''bitbucket-manifest-discover''\<rparr>],
                           removed = []\<rparr>]\<rparr>"
  have run: "discover cfg (net [repoB ''2'']) quiet accepting ?w = (Inr (), ?w')"
    by (simp add: discover_def ev accepting_def getProviderName_def)
  have absent: "''w/a'' \<notin> repoKeyOf ` set (fetched_repositories cfg (net [repoB ''2'']))"
    by (simp add: fetched_repositories_def)
  from no_removals [OF run] absent
  have "where_first ''w/a'' (rows (db ?w')) = where_first ''w/a'' (rows (db ?w))" by blast
  with run absent show ?thesis by simp
qed

text \<open>
  C10. A pass hands a mutation to the sink only when its loop produced at least one
  location, and the mutation then carries exactly the locations of the descriptors
  classified New or Changed. In a connected pass whose fetch succeeds, whose descriptors all
  have their version stored already and whose reads are not rejected, \<^verbatim>\<open>discover\<close>
  succeeds without calling the sink: the connection holds what it held, the table is
  unchanged, and one read per descriptor was sent.
\<close>

theorem sink_called_only_with_changes:
  assumes run: "discover c f e sink_rejects w = (res, w')"
  shows "(connection w' \<noteq> connection w \<longrightarrow>
            (\<exists>accepted m. connection w = Some accepted \<and> connection w' = Some (accepted @ [m]) \<and>
               added m \<noteq> [] \<and>
               map entity (added m) =
                 map (createLocationEntity c)
                   (spec_delta (stored_version (rows (db w))) (fetched_repositories c f)))) \<and>
         (connection w \<noteq> None \<and> (\<exists>manifest. fetchManifest c f = Inr manifest) \<and>
          (\<forall>a\<in>set (fetched_repositories c f).
              stored_version (rows (db w)) (repoKeyOf a) = Some (version a)) \<and>
          (\<forall>n. issued (db w) \<le> n \<and> n < issued (db w) + length (fetched_repositories c f) \<longrightarrow>
               \<not> fails_at e n) \<longrightarrow>
            res = Inr () \<and> connection w' = connection w \<and> rows (db w') = rows (db w) \<and>
            issued (db w') = issued (db w) + length (fetched_repositories c f))"
proof (cases "connection w = None \<or> (\<exists>err. fetchManifest c f = Inl err)")
  case True
  from discover_stops [OF True, of e sink_rejects] run have "w' = w" by auto
  with True show ?thesis by auto
next
  case False
  then obtain accepted manifest
    where conn: "connection w = Some accepted" and fetched: "fetchManifest c f = Inr manifest"
    by (cases "fetchManifest c f") auto
  let ?repos = "fetched_repositories c f"
  note unfolded = run [unfolded discover_connected [OF conn fetched]]
  obtain r d' where l: "discover_loop e c ?repos [] (db w) = (r, d')"
    by force
  have first: "connection w' \<noteq> connection w \<longrightarrow>
      (\<exists>accepted m. connection w = Some accepted \<and> connection w' = Some (accepted @ [m]) \<and>
         added m \<noteq> [] \<and>
         map entity (added m) =
           map (createLocationEntity c) (spec_delta (stored_version (rows (db w))) ?repos))"
  proof (cases r)
    case (Inl err)
    with unfolded l conn show ?thesis by auto
  next
    case (Inr locs)
    with l have "locs = map (createLocationEntity c)
        (spec_delta (stored_version (rows (db w))) ?repos)"
      using loop_refines_spec [of e c ?repos "[]" "db w" locs d'] by simp
    moreover have "map entity (map (\<lambda>l. \<lparr>entity = l, locationKey = getProviderName\<rparr>) locs) = locs"
      by (induction locs) simp_all
    ultimately show ?thesis
      using unfolded l conn Inr by (auto split: if_splits)
  qed
  have second: "res = Inr () \<and> connection w' = connection w \<and> rows (db w') = rows (db w) \<and>
      issued (db w') = issued (db w) + length ?repos"
    if stored: "\<forall>a\<in>set ?repos. stored_version (rows (db w)) (repoKeyOf a) = Some (version a)"
      and ok: "\<forall>n. issued (db w) \<le> n \<and> n < issued (db w) + length ?repos \<longrightarrow> \<not> fails_at e n"
  proof -
    have "discover_loop e c ?repos [] (db w) =
        (Inr [], \<lparr>rows = rows (db w), issued = issued (db w) + length ?repos\<rparr>)"
      using stored ok by (rule loop_all_unchanged)
    with unfolded conn show ?thesis by auto
  qed
  from first second show ?thesis by blast
qed

theorem sink_called_only_with_changes_witness:
  "discover cfg (net [repoA ''1'', repoB ''2'']) quiet rejecting
     \<lparr>db = \<lparr>rows = [\<lparr>repo_key = ''w/a'', manifest_version = ''1'',
                      last_seen_at = 101, last_registered_at = Some 102\<rparr>,
                     \<lparr>repo_key = ''w/b'', manifest_version = ''2'',
                      last_seen_at = 104, last_registered_at = Some 105\<rparr>], issued = 6\<rparr>,
      connection = Some []\<rparr> =
   (Inr (),
    \<lparr>db = \<lparr>rows = [\<lparr>repo_key = ''w/a'', manifest_version = ''1'',
                      last_seen_at = 101, last_registered_at = Some 102\<rparr>,
                     \<lparr>repo_key = ''w/b'', manifest_version = ''2'',
                      last_seen_at = 104, last_registered_at = Some 105\<rparr>], issued = 8\<rparr>,
      connection = Some []\<rparr>)"
proof -
  let ?w = "\<lparr>db = \<lparr>rows = [\<lparr>repo_key = ''w/a'', manifest_version = ''1'',
                      last_seen_at = 101, last_registered_at = Some 102\<rparr>,
                     \<lparr>repo_key = ''w/b'', manifest_version = ''2'',
                      last_seen_at = 104, last_registered_at = Some 105\<rparr>], issued = 6\<rparr>,
      connection = Some []\<rparr>"
  obtain res w' where run: "discover cfg (net [repoA ''1'', repoB ''2'']) quiet rejecting ?w = (res, w')"
    by force
  have repos: "fetched_repositories cfg (net [repoA ''1'', repoB ''2'']) = [repoA ''1'', repoB ''2'']"
    by (simp add: fetched_repositories_def)
  have "res = Inr () \<and> connection w' = connection ?w \<and> rows (db w') = rows (db ?w) \<and>
      issued (db w') = issued (db ?w) + length [repoA ''1'', repoB ''2'']"
    using sink_called_only_with_changes [OF run]
    unfolding repos by (simp add: stored_version_def where_first_def)
  then have "res = Inr ()" and "w' = \<lparr>db = \<lparr>rows = rows (db ?w), issued = 8\<rparr>, connection = Some []\<rparr>"
    by (cases w'; cases "db w'"; simp)+
  with run show ?thesis by simp
qed

end
